theory Spec2Isabelle
  imports Main "HOL-Library.Word"
begin

section \<open>JavaScript values\<close>

text \<open>
  The values that cross the request boundary of \<open>src/node/index.js\<close>: option objects,
  texts and kernel events. An object is the list of its own enumerable properties in the
  order in which \<open>Object.keys\<close> gives them. The numbers are the integers; fractions,
  \<open>NaN\<close> and the infinities are not among the values here.
\<close>

type_synonym bytes = "8 word list"

datatype jsval =
    JUndefined
  | JNull
  | JBool bool
  | JNum int
  | JStr string
  | JBuffer bytes
  | JArr "jsval list"
  | JObj "(string \<times> jsval) list"

type_synonym object = "(string \<times> jsval) list"

text \<open>The values on which \<open>if (v)\<close> takes its first branch and \<open>!v\<close> is false.\<close>

fun truthy :: "jsval \<Rightarrow> bool" where
  "truthy JUndefined = False"
| "truthy JNull = False"
| "truthy (JBool b) = b"
| "truthy (JNum n) = (n \<noteq> 0)"
| "truthy (JStr s) = (s \<noteq> [])"
| "truthy (JBuffer b) = True"
| "truthy (JArr xs) = True"
| "truthy (JObj kvs) = True"

text \<open>\<open>obj[key]\<close> on the own properties of an object; \<open>undefined\<close> when there is none.\<close>

definition own_prop :: "object \<Rightarrow> string \<Rightarrow> jsval" where
  "own_prop obj key = (case map_of obj key of None \<Rightarrow> JUndefined | Some v \<Rightarrow> v)"

text \<open>
  \<open>v[key]\<close> on any value, for the keys that this file reads from events and definitions
  (\<open>result\<close>, \<open>msg_type\<close>, \<open>content\<close>, \<open>data\<close>, the three payload fields, \<open>type\<close>,
  \<open>required\<close>): no prototype and no string, array or buffer has a member of such a name,
  so only the own properties of an object answer.
\<close>

fun get :: "jsval \<Rightarrow> string \<Rightarrow> jsval" where
  "get (JObj kvs) key = own_prop kvs key"
| "get v key = JUndefined"

text \<open>\<open>Object.keys\<close> and \<open>_.omit\<close> on objects.\<close>

definition object_keys :: "object \<Rightarrow> string list" where
  "object_keys obj = map fst obj"

definition omit :: "object \<Rightarrow> string list \<Rightarrow> object" where
  "omit obj ks = filter (\<lambda>kv. fst kv \<notin> set ks) obj"

text \<open>
  lodash takes an object for array-like when its \<open>length\<close> is a number that can be the
  length of an array: an integer from 0 to \<open>Number.MAX_SAFE_INTEGER\<close>. \<open>_.size\<close> of an
  array-like object is that \<open>length\<close>, of another object the number of its own keys.
\<close>

definition MAX_SAFE_INTEGER :: int where
  "MAX_SAFE_INTEGER = 9007199254740991"

fun isLength :: "jsval \<Rightarrow> bool" where
  "isLength (JNum n) = (0 \<le> n \<and> n \<le> MAX_SAFE_INTEGER)"
| "isLength v = False"

fun number_of :: "jsval \<Rightarrow> int" where
  "number_of (JNum n) = n"
| "number_of v = 0"

definition size_of :: "object \<Rightarrow> int" where
  "size_of obj =
     (if isLength (own_prop obj ''length'') then number_of (own_prop obj ''length'')
      else int (length obj))"

text \<open>A number in a string concatenation or as a property key: its decimal digits.\<close>

fun string_of_nat :: "nat \<Rightarrow> string" where
  "string_of_nat n =
     (if n < 10 then [''0123456789'' ! n]
      else string_of_nat (n div 10) @ [''0123456789'' ! (n mod 10)])"

declare string_of_nat.simps [simp del]

text \<open>
  \<open>_.each(obj, callback)\<close> calls back with value and key: for an array-like object with the
  indices below its \<open>length\<close>, for another object with its own properties.
\<close>

definition each_entries :: "object \<Rightarrow> object" where
  "each_entries obj =
     (if isLength (own_prop obj ''length'')
        then map (\<lambda>i. (string_of_nat i, own_prop obj (string_of_nat i)))
               [0 ..< nat (number_of (own_prop obj ''length''))]
      else obj)"

section \<open>Errors\<close>

text \<open>
  One constructor for each \<open>throw\<close> and each rejection of the source, carrying the
  values that the source puts into the message.
\<close>

datatype error =
    PropertiesNotAllowed "string list"
    \<comment> \<open>\<open>'Properties ' + Object.keys(bannedProperties) + ' are not allowed'\<close>\<close>
  | BadDefinition jsval string
    \<comment> \<open>\<open>'Bad definition of object type assertion: ' + definition + ' for ' + key\<close>\<close>
  | MissingValidator jsval string
    \<comment> \<open>\<open>'Missing validator type ' + expectedType + ' for property ' + key\<close>\<close>
  | MissingRequired string
    \<comment> \<open>\<open>'Missing required property ' + key\<close>\<close>
  | InvalidProperty string jsval jsval
    \<comment> \<open>\<open>'Invalid property ' + key + ': expected ' + expectedType + ' but got ' + value\<close>\<close>
  | KernelThatIdDoesNotExist
    \<comment> \<open>\<open>'Kernel with that id does not exist.'\<close>\<close>
  | KernelThisIdDoesNotExist string
    \<comment> \<open>\<open>'Kernel with this id does not exist: ' + id\<close>\<close>
  | MissingText
    \<comment> \<open>\<open>'Missing text to execute'\<close>\<close>
  | ThenIsNotAFunction
    \<comment> \<open>the \<open>TypeError\<close> of calling \<open>.then\<close> on a value that has no such method\<close>
  | TimeoutError string
    \<comment> \<open>the rejection of \<open>.timeout(ms, message)\<close>, with its message\<close>
  | CancellationError string
    \<comment> \<open>the rejection that bluebird gives to whoever chains on a cancelled promise\<close>
  | ClientError jsval
    \<comment> \<open>a rejection that comes from the kernel client\<close>

section \<open>assertValidObject\<close>

text \<open>The table \<open>validators\<close>: \<open>_.isString\<close>, \<open>_.isPlainObject\<close>, \<open>_.isNumber\<close>, \<open>_.isBoolean\<close>.\<close>

fun isString :: "jsval \<Rightarrow> bool" where
  "isString (JStr s) = True"
| "isString v = False"

fun isPlainObject :: "jsval \<Rightarrow> bool" where
  "isPlainObject (JObj kvs) = True"
| "isPlainObject v = False"

fun isNumber :: "jsval \<Rightarrow> bool" where
  "isNumber (JNum n) = True"
| "isNumber v = False"

fun isBoolean :: "jsval \<Rightarrow> bool" where
  "isBoolean (JBool b) = True"
| "isBoolean v = False"

text \<open>\<open>_.isObject\<close>: objects, arrays and buffers, not \<open>null\<close>.\<close>

fun isObject :: "jsval \<Rightarrow> bool" where
  "isObject (JObj kvs) = True"
| "isObject (JArr xs) = True"
| "isObject (JBuffer b) = True"
| "isObject v = False"

fun validators :: "jsval \<Rightarrow> (jsval \<Rightarrow> bool) option" where
  "validators (JStr s) =
     (if s = ''string'' then Some isString
      else if s = ''object'' then Some isPlainObject
      else if s = ''number'' then Some isNumber
      else if s = ''boolean'' then Some isBoolean
      else None)"
| "validators v = None"

text \<open>
  The body of the callback of \<open>_.each(validOptions, ...)\<close> after \<open>expectedType\<close> and
  \<open>isRequired\<close> have been chosen.
\<close>

definition checkProperty :: "string \<Rightarrow> jsval \<Rightarrow> jsval \<Rightarrow> jsval \<Rightarrow> error + unit" where
  "checkProperty key val expectedType isRequired =
     (case validators expectedType of
        None \<Rightarrow> Inl (MissingValidator expectedType key)
      | Some valid \<Rightarrow>
          if truthy isRequired \<and> val = JUndefined then Inl (MissingRequired key)
          else if val \<noteq> JUndefined \<and> \<not> valid val
            then Inl (InvalidProperty key expectedType val)
          else Inr ())"

text \<open>
  The callback itself: an object definition is read through its properties \<open>type\<close> and
  \<open>required\<close>, a string definition is the type and is never required.
\<close>

definition checkDefinition :: "object \<Rightarrow> string \<Rightarrow> jsval \<Rightarrow> error + unit" where
  "checkDefinition obj key definition =
     (if isObject definition
        then checkProperty key (own_prop obj key) (get definition ''type'') (get definition ''required'')
      else if isString definition
        then checkProperty key (own_prop obj key) definition (JBool False)
      else Inl (BadDefinition definition key))"

text \<open>The callbacks in order; the first \<open>throw\<close> ends the loop.\<close>

fun eachDefinition :: "object \<Rightarrow> object \<Rightarrow> error + unit" where
  "eachDefinition obj [] = Inr ()"
| "eachDefinition obj ((key, definition) # rest) =
     (case checkDefinition obj key definition of
        Inl e \<Rightarrow> Inl e
      | Inr u \<Rightarrow> eachDefinition obj rest)"

definition assertValidObject :: "object \<Rightarrow> object \<Rightarrow> error + unit" where
  "assertValidObject obj validOptions =
     (let bannedProperties = omit obj (object_keys validOptions)
      in if size_of bannedProperties > 0
           then Inl (PropertiesNotAllowed (object_keys bannedProperties))
         else eachDefinition obj (each_entries validOptions))"

text \<open>
  The definitions that \<open>onCheckKernel\<close> and \<open>onCreateKernelInstance\<close> both pass:
  \<open>{cmd: {type: 'string', isRequired: true}, cwd: {type: 'string'}}\<close>.
\<close>

definition kernelOptions :: object where
  "kernelOptions =
     [(''cmd'', JObj [(''type'', JStr ''string''), (''isRequired'', JBool True)]),
      (''cwd'', JObj [(''type'', JStr ''string'')])]"

section \<open>The session table\<close>

text \<open>
  \<open>kernelClients\<close> is a module-level plain object from instance ids to promises of
  clients. A promise is an object of its own: a caller that has read it out of the table
  keeps it when the entry is deleted. So the promises live in a store, addressed by
  reference, and the table holds references.
\<close>

type_synonym instanceId = string
type_synonym pref = nat
type_synonym client = nat
type_synonym rid = nat

text \<open>The methods of a client that the per-session operations forward to, with their arguments.\<close>

datatype request =
    Execute jsval
  | ExecuteHidden jsval jsval
  | GetAutoComplete jsval jsval
  | IsComplete jsval
  | GetInspection jsval jsval
  | GetStatus
  | Interrupt
  | GetEval jsval
  | Kill

text \<open>
  The promise stored under an instance id is built by
  \<open>new bluebird(function (resolveClient) {...})\<close>: its executor takes the resolving function
  only, so it is pending, with the callbacks that \<open>.then\<close> has attached to it, or fulfilled
  with a client; and as the file configures bluebird with \<open>cancellation: true\<close>, it can be
  cancelled. Each callback is the request it will send and the promise that its caller
  holds.
\<close>

datatype readiness = Pending "(request \<times> rid) list" | Fulfilled client | Cancelled

text \<open>
  The promise that an operation returns to its caller: waiting (with the time at which
  \<open>.timeout\<close> gives up, when there is one), resolved, rejected, or dropped: cancelled, so
  that it never settles.
\<close>

datatype outcome = Waiting "nat option" | Resolved jsval | Failed error | Dropped

record state =
  kernelClients :: "instanceId \<rightharpoonup> pref"
  promises :: "pref \<Rightarrow> readiness"
  npromises :: nat
  branches :: "pref \<Rightarrow> int"
  creating :: "(pref \<times> instanceId \<times> object) list"
  checks :: "object list"
  listeners :: "(client \<times> instanceId \<times> pref) list"
  calls :: "(client \<times> request \<times> rid) list"
  results :: "rid \<Rightarrow> outcome"
  chained :: "rid \<Rightarrow> pref"
  nresults :: nat
  now :: nat

text \<open>
  \<open>creating\<close> holds the calls of \<open>kernelsPythonClient.create(options)\<close> that have not settled,
  each with the promise and the instance id its callbacks close over; \<open>checks\<close> the calls of
  \<open>kernelsPythonClient.check(options)\<close>; \<open>listeners\<close> the clients on which the handlers of
  \<open>ready\<close> and \<open>close\<close> have been registered; \<open>calls\<close> the requests sent to clients so far;
  \<open>now\<close> the clock in milliseconds. For cancellation bluebird keeps, with every promise,
  the number of promises chained on it that have not been cancelled (\<open>branches\<close>), and
  with every chained promise the one it was chained on (\<open>chained\<close>). Calls of \<open>log\<close> are
  left out.
\<close>

definition init :: state where
  "init = \<lparr>kernelClients = Map.empty, promises = (\<lambda>p. Pending []), npromises = 0,
            branches = (\<lambda>p. 0), creating = [], checks = [], listeners = [], calls = [],
            results = (\<lambda>r. Waiting None), chained = (\<lambda>r. 0), nresults = 0, now = 0\<rparr>"

definition autoCompleteTimeout :: nat where
  "autoCompleteTimeout = 5"

definition second :: nat where
  "second = 1000"

definition autoCompleteMessage :: string where
  "autoCompleteMessage =
     ''AutoComplete failed to finish in '' @ string_of_nat autoCompleteTimeout @ '' seconds''"

text \<open>
  \<open>kernelClients[id]\<close> reads an own property of the table or, as \<open>kernelClients\<close> is created
  by \<open>{}\<close>, a member that every object inherits from \<open>Object.prototype\<close>. The inherited
  members are functions and objects, all truthy, none of them a promise.
\<close>

definition objectPrototype :: "string list" where
  "objectPrototype =
     [''constructor'', ''hasOwnProperty'', ''isPrototypeOf'', ''propertyIsEnumerable'',
      ''toLocaleString'', ''toString'', ''valueOf'', ''__proto__'',
      ''__defineGetter__'', ''__defineSetter__'', ''__lookupGetter__'', ''__lookupSetter__'']"

datatype member = Promise pref | Inherited

definition kernelClients_get :: "state \<Rightarrow> instanceId \<Rightarrow> member option" where
  "kernelClients_get st id' =
     (case kernelClients st id' of
        Some p \<Rightarrow> Some (Promise p)
      | None \<Rightarrow> if id' \<in> set objectPrototype then Some Inherited else None)"

section \<open>Creating and checking\<close>

definition onCheckKernel :: "object \<Rightarrow> state \<Rightarrow> (error + unit) \<times> state" where
  "onCheckKernel options st =
     (case assertValidObject options kernelOptions of
        Inl e \<Rightarrow> (Inl e, st)
      | Inr u \<Rightarrow> (Inr (), st\<lparr>checks := checks st @ [options]\<rparr>))"

text \<open>
  \<open>instanceId\<close> is what \<open>cuid()\<close> returns. The executor of the inner promise runs while the
  promise is built, so \<open>kernelsPythonClient.create(options)\<close> is called first and the
  promise, on which nothing is chained yet, is stored in the table next, in the same
  turn; the callbacks on the result of \<open>create\<close> run in a later turn (see \<open>react\<close>).
  The outer promise is resolved with the id at once.
\<close>

definition onCreateKernelInstance ::
    "instanceId \<Rightarrow> object \<Rightarrow> state \<Rightarrow> (error + instanceId) \<times> state" where
  "onCreateKernelInstance instanceId options st =
     (case assertValidObject options kernelOptions of
        Inl e \<Rightarrow> (Inl e, st)
      | Inr u \<Rightarrow>
          (let p = npromises st
           in (Inr instanceId,
               st\<lparr>creating := creating st @ [(p, instanceId, options)],
                  promises := (promises st)(p := Pending []),
                  branches := (branches st)(p := 0),
                  npromises := Suc p,
                  kernelClients := (kernelClients st)(instanceId \<mapsto> p)\<rparr>)))"

section \<open>The operations on one session\<close>

text \<open>
  \<open>x.then(client => client.request(...))\<close> on what the table gave. On an inherited member
  there is no \<open>then\<close> to call. On a promise, the caller gets a new promise \<open>r\<close>, chained on
  it; the request is sent when the client is there. When it already is, bluebird runs the
  callback at the end of the turn, and as nothing of this file runs in between, the
  request is sent in the same step here. On a cancelled promise bluebird rejects the new
  one as a late observer of the cancellation. \<open>deadline\<close> is set by a \<open>.timeout\<close> on the
  result.
\<close>

fun thenClient :: "member \<Rightarrow> request \<Rightarrow> nat option \<Rightarrow> state \<Rightarrow> (error + rid) \<times> state" where
  "thenClient Inherited req deadline st = (Inl ThenIsNotAFunction, st)"
| "thenClient (Promise p) req deadline st =
     (let r = nresults st;
          st1 = st\<lparr>results := (results st)(r := Waiting deadline), nresults := Suc r,
                   chained := (chained st)(r := p),
                   branches := (branches st)(p := branches st p + 1)\<rparr>
      in (Inr r,
          case promises st p of
            Pending waiters \<Rightarrow> st1\<lparr>promises := (promises st)(p := Pending (waiters @ [(req, r)]))\<rparr>
          | Fulfilled c \<Rightarrow> st1\<lparr>calls := calls st @ [(c, req, r)]\<rparr>
          | Cancelled \<Rightarrow>
              st1\<lparr>results :=
                    (results st)(r := Failed (CancellationError ''late cancellation observer''))\<rparr>))"

definition onKillKernelInstance :: "instanceId \<Rightarrow> state \<Rightarrow> (error + rid) \<times> state" where
  "onKillKernelInstance id' st =
     (case kernelClients_get st id' of
        None \<Rightarrow> (Inl KernelThatIdDoesNotExist, st)
      | Some promise \<Rightarrow> thenClient promise Kill None st)"

definition getKernelInstanceById :: "instanceId \<Rightarrow> state \<Rightarrow> error + member" where
  "getKernelInstanceById id' st =
     (case kernelClients_get st id' of
        None \<Rightarrow> Inl (KernelThisIdDoesNotExist id')
      | Some m \<Rightarrow> Inr m)"

text \<open>\<open>getKernelInstanceById(options.instanceId).then(client => ...)\<close>, as every operation below has it.\<close>

definition withKernelInstance ::
    "instanceId \<Rightarrow> request \<Rightarrow> nat option \<Rightarrow> state \<Rightarrow> (error + rid) \<times> state" where
  "withKernelInstance id' req deadline st =
     (case getKernelInstanceById id' st of
        Inl e \<Rightarrow> (Inl e, st)
      | Inr m \<Rightarrow> thenClient m req deadline st)"

definition onExecuteWithKernel :: "instanceId \<Rightarrow> jsval \<Rightarrow> state \<Rightarrow> (error + rid) \<times> state" where
  "onExecuteWithKernel id' text st =
     (if \<not> truthy text then (Inl MissingText, st)
      else withKernelInstance id' (Execute text) None st)"

definition onGetAutoComplete ::
    "instanceId \<Rightarrow> jsval \<Rightarrow> jsval \<Rightarrow> state \<Rightarrow> (error + rid) \<times> state" where
  "onGetAutoComplete id' text cursorPos st =
     withKernelInstance id' (GetAutoComplete text cursorPos)
       (Some (now st + autoCompleteTimeout * second)) st"

definition onIsComplete :: "instanceId \<Rightarrow> jsval \<Rightarrow> state \<Rightarrow> (error + rid) \<times> state" where
  "onIsComplete id' text st = withKernelInstance id' (IsComplete text) None st"

definition onGetInspection ::
    "instanceId \<Rightarrow> jsval \<Rightarrow> jsval \<Rightarrow> state \<Rightarrow> (error + rid) \<times> state" where
  "onGetInspection id' text cursorPos st =
     withKernelInstance id' (GetInspection text cursorPos) None st"

definition onGetStatus :: "instanceId \<Rightarrow> state \<Rightarrow> (error + rid) \<times> state" where
  "onGetStatus id' st = withKernelInstance id' GetStatus None st"

definition onExecuteHidden ::
    "instanceId \<Rightarrow> jsval \<Rightarrow> jsval \<Rightarrow> state \<Rightarrow> (error + rid) \<times> state" where
  "onExecuteHidden id' code resolveEvent st =
     withKernelInstance id' (ExecuteHidden code resolveEvent) None st"

definition onEval :: "instanceId \<Rightarrow> jsval \<Rightarrow> state \<Rightarrow> (error + rid) \<times> state" where
  "onEval id' text st = withKernelInstance id' (GetEval text) None st"

definition onInterrupt :: "instanceId \<Rightarrow> state \<Rightarrow> (error + rid) \<times> state" where
  "onInterrupt id' st = withKernelInstance id' Interrupt None st"

section \<open>What happens in later turns\<close>

text \<open>
  The callbacks that the source registers run when the world outside calls them: the
  promise of \<open>create\<close> settles, a client emits \<open>ready\<close> or \<open>close\<close>, the promise that a
  client returned for a request settles, time passes.
\<close>

datatype event =
    ClientCreated pref client
  | ClientFailed pref
  | ClientReady client
  | ClientClose client
  | Reply rid jsval
  | ReplyError rid jsval
  | Elapse nat

text \<open>
  \<open>resolveClient(client)\<close>: a pending promise is fulfilled and its callbacks send their
  requests; on a promise that is fulfilled or cancelled nothing happens.
\<close>

definition resolveClient :: "pref \<Rightarrow> client \<Rightarrow> state \<Rightarrow> state" where
  "resolveClient p c st =
     (case promises st p of
        Pending waiters \<Rightarrow>
          st\<lparr>promises := (promises st)(p := Fulfilled c),
             calls := calls st @ map (\<lambda>w. (c, fst w, snd w)) waiters\<rparr>
      | Fulfilled c' \<Rightarrow> st
      | Cancelled \<Rightarrow> st)"

text \<open>The handlers of \<open>ready\<close> and of \<open>close\<close> that were registered on the emitting client.\<close>

fun emitReady :: "client \<Rightarrow> (client \<times> instanceId \<times> pref) list \<Rightarrow> state \<Rightarrow> state" where
  "emitReady c [] st = st"
| "emitReady c ((c', instanceId, p) # ls) st =
     emitReady c ls (if c' = c then resolveClient p c st else st)"

fun emitClose :: "client \<Rightarrow> (client \<times> instanceId \<times> pref) list \<Rightarrow> state \<Rightarrow> state" where
  "emitClose c [] st = st"
| "emitClose c ((c', instanceId, p) # ls) st =
     emitClose c ls
       (if c' = c then st\<lparr>kernelClients := (kernelClients st)(instanceId := None)\<rparr> else st)"

text \<open>
  The callback on the result of \<open>create\<close> registers the handlers and returns
  \<open>kernelClients[instanceId]\<close>. When that is a cancelled promise, bluebird rejects the
  chain as a late observer, and the \<open>catch\<close> that follows deletes the entry. On any other
  value the \<open>catch\<close> does not run.
\<close>

definition returnsCancelled :: "state \<Rightarrow> instanceId \<Rightarrow> bool" where
  "returnsCancelled st instanceId =
     (case kernelClients st instanceId of
        None \<Rightarrow> False
      | Some q \<Rightarrow> promises st q = Cancelled)"

text \<open>
  \<open>.timeout(ms, message)\<close> of bluebird with cancellation configured. When the time is up
  and the promise \<open>r\<close> is still waiting, it is rejected with the message and the chain
  above it is cancelled. Up to the stored promise: the callback of \<open>r\<close> is taken off it
  and will not send its request, and the stored promise counts one branch less. When no
  branch is left the stored promise is cancelled itself, and whatever was still waiting
  on it is dropped. A stored promise that is fulfilled is out of reach: then the
  cancellation goes to the promise that the client returned, which is the client's.
\<close>

definition cancelBy :: "pref \<Rightarrow> rid \<Rightarrow> state \<Rightarrow> state" where
  "cancelBy p r st =
     (case promises st p of
        Pending waiters \<Rightarrow>
          (let rest = filter (\<lambda>w. snd w \<noteq> r) waiters;
               b = branches st p - 1
           in if b \<le> 0 then
                st\<lparr>promises := (promises st)(p := Cancelled),
                   branches := (branches st)(p := b),
                   results := (\<lambda>x. if x \<in> set (map snd rest) then Dropped else results st x)\<rparr>
              else
                st\<lparr>promises := (promises st)(p := Pending rest),
                   branches := (branches st)(p := b)\<rparr>)
      | Fulfilled c \<Rightarrow> st
      | Cancelled \<Rightarrow> st)"

fun due :: "nat \<Rightarrow> outcome \<Rightarrow> bool" where
  "due t (Waiting (Some deadline)) = (deadline \<le> t)"
| "due t out = False"

definition timeoutFires :: "rid \<Rightarrow> state \<Rightarrow> state" where
  "timeoutFires r st =
     (if due (now st) (results st r) then
        cancelBy (chained st r) r
          (st\<lparr>results := (results st)(r := Failed (TimeoutError autoCompleteMessage))\<rparr>)
      else st)"

text \<open>
  A client answers the requests that were sent to it, and no others. The result of
  \<open>onKillKernelInstance\<close> ends in \<open>.then(function () { log(...) })\<close>, which
  resolves with \<open>undefined\<close>; the other operations pass the client's value on.
\<close>

definition sent :: "state \<Rightarrow> rid \<Rightarrow> bool" where
  "sent st r = list_ex (\<lambda>call. snd (snd call) = r) (calls st)"

definition replyValue :: "state \<Rightarrow> rid \<Rightarrow> jsval \<Rightarrow> jsval" where
  "replyValue st r v =
     (if list_ex (\<lambda>call. fst (snd call) = Kill \<and> snd (snd call) = r) (calls st)
        then JUndefined else v)"

text \<open>When time passes, the timers that are due fire, the oldest first.\<close>

fun react :: "event \<Rightarrow> state \<Rightarrow> state" where
  "react (ClientCreated p c) st =
     (case map_of (creating st) p of
        None \<Rightarrow> st
      | Some (instanceId, options) \<Rightarrow>
          (let st1 = st\<lparr>creating := filter (\<lambda>e. fst e \<noteq> p) (creating st),
                        listeners := listeners st @ [(c, instanceId, p)]\<rparr>
           in if returnsCancelled st instanceId
                then st1\<lparr>kernelClients := (kernelClients st)(instanceId := None)\<rparr>
              else st1))"
| "react (ClientFailed p) st =
     (case map_of (creating st) p of
        None \<Rightarrow> st
      | Some (instanceId, options) \<Rightarrow>
          st\<lparr>creating := filter (\<lambda>e. fst e \<noteq> p) (creating st),
             kernelClients := (kernelClients st)(instanceId := None)\<rparr>)"
| "react (ClientReady c) st = emitReady c (listeners st) st"
| "react (ClientClose c) st = emitClose c (listeners st) st"
| "react (Reply r v) st =
     (if sent st r then
        (case results st r of
           Waiting deadline \<Rightarrow> st\<lparr>results := (results st)(r := Resolved (replyValue st r v))\<rparr>
         | out \<Rightarrow> st)
      else st)"
| "react (ReplyError r e) st =
     (if sent st r then
        (case results st r of
           Waiting deadline \<Rightarrow> st\<lparr>results := (results st)(r := Failed (ClientError e))\<rparr>
         | out \<Rightarrow> st)
      else st)"
| "react (Elapse ms) st = fold timeoutFires [0 ..< nresults st] (st\<lparr>now := now st + ms\<rparr>)"

fun run :: "event list \<Rightarrow> state \<Rightarrow> state" where
  "run [] st = st"
| "run (e # es) st = run es (react e st)"



text \<open>
  A promise number is unused when no request carries it, neither sent nor waiting. The
  number that the next \<open>.then\<close> takes is unused in every state that the operations build.
\<close>

fun waiters :: "readiness \<Rightarrow> (request \<times> rid) list" where
  "waiters (Pending ws) = ws"
| "waiters (Fulfilled c) = []"
| "waiters Cancelled = []"




definition on_time :: "rid \<Rightarrow> nat \<Rightarrow> state \<Rightarrow> bool" where
  "on_time r deadline s \<longleftrightarrow>
     r < nresults s
     \<and> results s r = (if now s < deadline then Waiting (Some deadline)
                      else Failed (TimeoutError autoCompleteMessage))"


text \<open>
  Between the moment the clock moves and the moment the timers have fired, the promise
  is waiting, or rejected after its deadline.
\<close>

definition timer_set :: "rid \<Rightarrow> nat \<Rightarrow> state \<Rightarrow> bool" where
  "timer_set r deadline s \<longleftrightarrow>
     r < nresults s
     \<and> (results s r = Waiting (Some deadline)
        \<or> deadline \<le> now s \<and> results s r = Failed (TimeoutError autoCompleteMessage))"

text \<open>
  A promise is abandoned, with a caller \<open>r\<close> waiting on it, when no construction and no
  handler can resolve it any more, no promise chained on it has a timeout running, and
  the request of \<open>r\<close> waits nowhere else and was never sent.
\<close>

definition abandoned :: "pref \<Rightarrow> rid \<Rightarrow> state \<Rightarrow> bool" where
  "abandoned p r s \<longleftrightarrow>
     (\<forall>e \<in> set (creating s). fst e \<noteq> p)
     \<and> (\<forall>l \<in> set (listeners s). snd (snd l) \<noteq> p)
     \<and> (\<forall>q. q \<noteq> p \<longrightarrow> (\<forall>w \<in> set (waiters (promises s q)). snd w \<noteq> r))
     \<and> (\<forall>x d. results s x = Waiting (Some d) \<longrightarrow> chained s x \<noteq> p)
     \<and> \<not> sent s r
     \<and> results s r = Waiting None"

text \<open>A session as the scenario of the specification builds it, created and ready.\<close>

definition python3 :: object where
  "python3 = [(''cmd'', JStr ''python3'')]"

definition created_k1 :: state where
  "created_k1 = snd (onCreateKernelInstance ''k1'' python3 init)"

definition ready_k1 :: state where
  "ready_k1 = run [ClientCreated 0 7, ClientReady 7] created_k1"

section \<open>Temporary files and plot routes\<close>

text \<open>
  \<open>files\<close> is what \<open>services/files\<close> has written, path and content; \<open>urls\<close> is the
  route table of the plot server, route key and path of the file it serves. The newest
  entry is first.
\<close>

record artifacts =
  files :: "(string \<times> jsval) list"
  urls :: "(string \<times> string) list"

text \<open>A name longer than every name in use, hence different from each.\<close>

definition fresh_name :: "string list \<Rightarrow> string" where
  "fresh_name used = replicate (Suc (foldr (\<lambda>n. max (length n)) used 0)) CHR ''t''"

text \<open>
  Modelled from the spec: \<open>files.saveToTemporaryFile(extension, content)\<close> of
  \<open>services/files\<close>, which is not among the sources. The spec has it persist the content
  to a new temporary file with the extension given; the promise it returns resolves with
  the path.
\<close>

definition saveToTemporaryFile :: "string \<Rightarrow> jsval \<Rightarrow> artifacts \<Rightarrow> string \<times> artifacts" where
  "saveToTemporaryFile extension content a =
     (let filepath = ''/tmp/'' @ fresh_name (map fst (files a)) @ extension
      in (filepath, a\<lparr>files := (filepath, content) # files a\<rparr>))"

text \<open>
  Modelled from the spec: \<open>plotServerInstance.addRouteToFile(filepath, route)\<close> of
  \<open>services/plot-server\<close>, which is not among the sources. The spec has it register the
  mapping and return a route key that is unique: on a collision a new key is derived,
  no entry is overwritten.
\<close>

definition addRouteToFile :: "string \<Rightarrow> string \<Rightarrow> artifacts \<Rightarrow> string \<times> artifacts" where
  "addRouteToFile filepath route a =
     (let key = (if route \<in> set (map fst (urls a))
                 then route @ fresh_name (map fst (urls a)) else route)
      in (key, a\<lparr>urls := (key, filepath) # urls a\<rparr>))"

section \<open>Base64\<close>

text \<open>
  The text that \<open>image/png\<close> carries: base64 as RFC 4648 has it, four characters of the
  alphabet for three bytes, the last group padded with \<open>=\<close>. \<open>base64\<close> gives the bytes
  that a text encodes, and nothing for a text that is not of this form.
\<close>

definition base64_alphabet :: string where
  "base64_alphabet = ''ABCDEFGHIJKLMNOPQRSTUVWXYZabcdefghijklmnopqrstuvwxyz0123456789+/''"

fun position :: "'a \<Rightarrow> 'a list \<Rightarrow> nat option" where
  "position x [] = None"
| "position x (y # ys) = (if x = y then Some 0 else map_option Suc (position x ys))"

definition sextet :: "char \<Rightarrow> nat option" where
  "sextet c = position c base64_alphabet"

definition byte1 :: "nat \<Rightarrow> nat \<Rightarrow> 8 word" where
  "byte1 x y = of_nat (x * 4 + y div 16)"

definition byte2 :: "nat \<Rightarrow> nat \<Rightarrow> 8 word" where
  "byte2 y z = of_nat ((y mod 16) * 16 + z div 4)"

definition byte3 :: "nat \<Rightarrow> nat \<Rightarrow> 8 word" where
  "byte3 z w = of_nat ((z mod 4) * 64 + w)"

text \<open>One group of four characters; only the last group of a text may be padded.\<close>

definition quad :: "bool \<Rightarrow> char \<Rightarrow> char \<Rightarrow> char \<Rightarrow> char \<Rightarrow> bytes option" where
  "quad final a b c d =
     (case (sextet a, sextet b) of
        (Some x, Some y) \<Rightarrow>
          (if final \<and> c = CHR ''='' \<and> d = CHR ''='' then Some [byte1 x y]
           else (case sextet c of
                   None \<Rightarrow> None
                 | Some z \<Rightarrow>
                     (if final \<and> d = CHR ''='' then Some [byte1 x y, byte2 y z]
                      else (case sextet d of
                              None \<Rightarrow> None
                            | Some w \<Rightarrow> Some [byte1 x y, byte2 y z, byte3 z w]))))
      | other \<Rightarrow> None)"

fun base64 :: "string \<Rightarrow> bytes option" where
  "base64 [] = Some []"
| "base64 (a # b # c # d # rest) =
     (case quad (rest = []) a b c d of
        None \<Rightarrow> None
      | Some bs \<Rightarrow> map_option (\<lambda>more. bs @ more) (base64 rest))"
| "base64 short = None"

section \<open>The display-data transform\<close>

text \<open>\<open>_.last(filepath.split(path.sep))\<close> with the separator \<open>/\<close>.\<close>

definition lastOfSplit :: "string \<Rightarrow> string" where
  "lastOfSplit filepath = rev (takeWhile (\<lambda>c. c \<noteq> CHR ''/'') (rev filepath))"

text \<open>
  \<open>_.get(value, 'a.b.c')\<close>. lodash first asks whether the value has a property named by
  the whole text \<open>a.b.c\<close> (no prototype has one of the names used here, so an own property
  of an object) and reads that one if so. If not, it walks along the keys \<open>a\<close>,
  \<open>b\<close>, \<open>c\<close>, and the walk gives \<open>undefined\<close> as soon as there is nothing to read from.
\<close>

fun joinPath :: "string list \<Rightarrow> string" where
  "joinPath [] = []"
| "joinPath [k] = k"
| "joinPath (k # ks) = k @ ''.'' @ joinPath ks"

fun has_key :: "jsval \<Rightarrow> string \<Rightarrow> bool" where
  "has_key (JObj kvs) key = (key \<in> set (map fst kvs))"
| "has_key v key = False"

fun get_path :: "jsval \<Rightarrow> string list \<Rightarrow> jsval" where
  "get_path v [] = v"
| "get_path v (k # ks) = get_path (get v k) ks"

definition lodash_get :: "jsval \<Rightarrow> string list \<Rightarrow> jsval" where
  "lodash_get v ks =
     (if has_key v (joinPath ks) then get v (joinPath ks) else get_path v ks)"

text \<open>\<open>obj[key] = value\<close>: the property is overwritten where it stands, or added at the end.\<close>

fun assign :: "object \<Rightarrow> string \<Rightarrow> jsval \<Rightarrow> object" where
  "assign [] key v = [(key, v)]"
| "assign ((k, w) # kvs) key v =
     (if k = key then (k, v) # kvs else (k, w) # assign kvs key v)"

fun set_prop :: "jsval \<Rightarrow> string \<Rightarrow> jsval \<Rightarrow> jsval" where
  "set_prop (JObj kvs) key v = JObj (assign kvs key v)"
| "set_prop x key v = x"

text \<open>
  The event after the object that \<open>_.get\<close> found has been mutated in place: the same
  event, with that object in its new state at the place where \<open>_.get\<close> found it.
\<close>

fun set_path :: "jsval \<Rightarrow> string list \<Rightarrow> jsval \<Rightarrow> jsval" where
  "set_path v [] x = x"
| "set_path v (k # ks) x = set_prop v k (set_path (get v k) ks x)"

definition mutated :: "jsval \<Rightarrow> string list \<Rightarrow> jsval \<Rightarrow> jsval" where
  "mutated v ks x =
     (if has_key v (joinPath ks) then set_prop v (joinPath ks) x else set_path v ks x)"

text \<open>
  The three callbacks of one event run in the order in which the files are written; here
  each file is written and routed before the next, which changes the names chosen and
  nothing else.
\<close>

definition replacePropertyWithTemporaryFile ::
    "string \<Rightarrow> jsval \<Rightarrow> string \<Rightarrow> artifacts \<Rightarrow> jsval \<times> artifacts" where
  "replacePropertyWithTemporaryFile extension data property a =
     (if truthy (get data property) then
        (let (filepath, a1) = saveToTemporaryFile extension (get data property) a;
             name = lastOfSplit filepath;
             (route, a2) = addRouteToFile filepath (''/'' @ name) a1
         in (set_prop data property (JStr route), a2))
      else (data, a))"

text \<open>The two paths that the transform reads with \<open>_.get\<close>.\<close>

definition typePath :: "string list" where
  "typePath = [''result'', ''msg_type'']"

definition dataPath :: "string list" where
  "dataPath = [''result'', ''content'', ''data'']"

text \<open>
  \<open>Buffer value encoding\<close> stands for \<open>new Buffer(value, encoding)\<close> of the runtime, which
  gives the bytes or throws; the transform calls it with the encoding \<open>base64\<close>.
\<close>

definition displayDataTransform ::
    "(jsval \<Rightarrow> string \<Rightarrow> error + bytes) \<Rightarrow> jsval \<Rightarrow> artifacts \<Rightarrow> (error + jsval) \<times> artifacts" where
  "displayDataTransform Buffer event a =
     (let type = lodash_get event typePath;
          data = lodash_get event dataPath
      in if type = JStr ''display_data'' \<and> truthy data then
           (case (if truthy (get data ''image/png'')
                  then map_sum id (\<lambda>b. set_prop data ''image/png'' (JBuffer b))
                         (Buffer (get data ''image/png'') ''base64'')
                  else Inr data) of
              Inl e \<Rightarrow> (Inl e, a)
            | Inr data0 \<Rightarrow>
                (let (data1, a1) = replacePropertyWithTemporaryFile ''.html'' data0 ''text/html'' a;
                     (data2, a2) = replacePropertyWithTemporaryFile ''.png'' data1 ''image/png'' a1;
                     (data3, a3) = replacePropertyWithTemporaryFile ''.svg'' data2 ''image/svg'' a2
                 in (Inr (mutated event dataPath data3), a3)))
         else (Inr event, a))"

text \<open>
  What the theorems on the transform speak of: the store \<open>a'\<close> extends \<open>a\<close> when every
  file and every route of \<open>a\<close> is still there, unchanged; a field of \<open>data\<close> is served
  when it holds a route key, the route leads to a file, and the file holds the content.
\<close>

definition extends :: "artifacts \<Rightarrow> artifacts \<Rightarrow> bool" where
  "extends a a' \<longleftrightarrow>
     (\<forall>k v. map_of (files a) k = Some v \<longrightarrow> map_of (files a') k = Some v)
     \<and> (\<forall>k v. map_of (urls a) k = Some v \<longrightarrow> map_of (urls a') k = Some v)"

definition served :: "jsval \<Rightarrow> artifacts \<Rightarrow> string \<Rightarrow> string \<Rightarrow> string \<Rightarrow> jsval \<Rightarrow> bool" where
  "served data a property route filepath content \<longleftrightarrow>
     get data property = JStr route
     \<and> map_of (urls a) route = Some filepath
     \<and> map_of (files a) filepath = Some content"

text \<open>
  Examples: a display-data event with the given fields, the empty store, and a
  constructor of buffers that decodes base64 as \<open>base64\<close> does. On any other argument,
  which no example gives it, it throws where the runtime may do otherwise.
\<close>

definition display_data :: "object \<Rightarrow> jsval" where
  "display_data kvs =
     JObj [(''result'', JObj [(''msg_type'', JStr ''display_data''),
                             (''content'', JObj [(''data'', JObj kvs)])])]"

definition no_artifacts :: artifacts where
  "no_artifacts = \<lparr>files = [], urls = []\<rparr>"

fun base64Buffer :: "jsval \<Rightarrow> string \<Rightarrow> error + bytes" where
  "base64Buffer (JStr s) encoding =
     (case (if encoding = ''base64'' then base64 s else None) of
        None \<Rightarrow> Inl (ClientError (JStr s))
      | Some b \<Rightarrow> Inr b)"
| "base64Buffer v encoding = Inl (ClientError v)"

section \<open>Validation of the options\<close>

lemma each_entries_kernelOptions: "each_entries kernelOptions = kernelOptions"
  by (simp add: each_entries_def kernelOptions_def own_prop_def)

lemma assertValidObject_empty: "assertValidObject [] kernelOptions = Inr ()"
  by (simp add: assertValidObject_def each_entries_def size_of_def kernelOptions_def omit_def
      object_keys_def checkDefinition_def checkProperty_def own_prop_def)

lemma valid_python3: "assertValidObject python3 kernelOptions = Inr ()"
  by (simp add: assertValidObject_def each_entries_def size_of_def kernelOptions_def python3_def
      omit_def object_keys_def checkDefinition_def checkProperty_def own_prop_def)

lemma keys_omit: "object_keys (omit obj ks) = filter (\<lambda>k. k \<notin> set ks) (object_keys obj)"
  by (simp add: object_keys_def omit_def filter_map comp_def)

lemma keys_kernelOptions: "object_keys kernelOptions = [''cmd'', ''cwd'']"
  by (simp add: object_keys_def kernelOptions_def)

lemma own_prop_omit: "key \<notin> set ks \<Longrightarrow> own_prop (omit obj ks) key = own_prop obj key"
  by (induction obj) (auto simp: own_prop_def omit_def)

lemma size_of_positive:
  assumes "obj \<noteq> []" and "own_prop obj ''length'' \<noteq> JNum 0"
  shows "size_of obj > 0"
proof (cases "isLength (own_prop obj ''length'')")
  case True
  then obtain n where "own_prop obj ''length'' = JNum n" "0 \<le> n"
    by (cases "own_prop obj ''length''") auto
  with assms(2) True show ?thesis
    by (simp add: size_of_def)
next
  case False
  with assms(1) show ?thesis
    by (simp add: size_of_def)
qed

lemma assertValidObject_banned:
  assumes "k \<in> set (object_keys options)" and "k \<notin> set (object_keys validOptions)"
      and "''length'' \<in> set (object_keys validOptions) \<or> own_prop options ''length'' \<noteq> JNum 0"
  shows "assertValidObject options validOptions =
           Inl (PropertiesNotAllowed
                  (filter (\<lambda>k. k \<notin> set (object_keys validOptions)) (object_keys options)))"
proof -
  let ?banned = "omit options (object_keys validOptions)"
  have "k \<in> set (object_keys ?banned)"
    using assms by (simp add: keys_omit)
  then have ne: "?banned \<noteq> []"
    by (auto simp: object_keys_def)
  have "own_prop ?banned ''length'' \<noteq> JNum 0"
  proof (cases "''length'' \<in> set (object_keys validOptions)")
    case True
    then have "''length'' \<notin> fst ` set ?banned"
      by (auto simp: omit_def)
    then have "map_of ?banned ''length'' = None"
      by (simp add: map_of_eq_None_iff)
    then show ?thesis by (simp add: own_prop_def)
  next
    case False
    with assms(3) show ?thesis by (simp add: own_prop_omit)
  qed
  with ne have "size_of ?banned > 0"
    by (rule size_of_positive)
  then show ?thesis
    by (simp add: assertValidObject_def keys_omit)
qed

text \<open>
  Claim C1. For the options \<open>{}\<close>, which lack the required \<open>cmd\<close>, session creation and
  the interpreter check should fail at once, before a subprocess is started and before
  the session table gets an entry. The source does not: \<open>assertValidObject\<close> reads
  \<open>definition.required\<close>, the callers write \<open>isRequired: true\<close>, so no property is ever
  required. On \<open>{}\<close>, in any state, \<open>onCreateKernelInstance\<close> returns the id, has called
  \<open>create\<close> and has stored the entry, and \<open>onCheckKernel\<close> has called \<open>check\<close>.
\<close>

theorem missing_cmd_is_accepted:
  "onCreateKernelInstance instanceId [] st =
     (Inr instanceId,
      st\<lparr>creating := creating st @ [(npromises st, instanceId, [])],
         promises := (promises st)(npromises st := Pending []),
         branches := (branches st)(npromises st := 0),
         npromises := Suc (npromises st),
         kernelClients := (kernelClients st)(instanceId \<mapsto> npromises st)\<rparr>)
   \<and> onCheckKernel [] st = (Inr (), st\<lparr>checks := checks st @ [[]]\<rparr>)"
  by (simp add: onCreateKernelInstance_def onCheckKernel_def assertValidObject_empty Let_def)

lemma disallowed_properties_rejected_unless_length_zero:
  assumes "k \<in> set (object_keys options)" and "k \<noteq> ''cmd''" and "k \<noteq> ''cwd''"
      and "own_prop options ''length'' \<noteq> JNum 0"
  shows "onCreateKernelInstance instanceId options st =
           (Inl (PropertiesNotAllowed
                   (filter (\<lambda>k. k \<noteq> ''cmd'' \<and> k \<noteq> ''cwd'') (object_keys options))), st)
       \<and> onCheckKernel options st =
           (Inl (PropertiesNotAllowed
                   (filter (\<lambda>k. k \<noteq> ''cmd'' \<and> k \<noteq> ''cwd'') (object_keys options))), st)
       \<and> k \<in> set (filter (\<lambda>k. k \<noteq> ''cmd'' \<and> k \<noteq> ''cwd'') (object_keys options))"
proof -
  have "k \<notin> set (object_keys kernelOptions)"
    using assms by (simp add: keys_kernelOptions)
  from assertValidObject_banned [OF assms(1) this] assms(4)
  show ?thesis using assms
    by (simp add: onCreateKernelInstance_def onCheckKernel_def keys_kernelOptions)
qed

lemma valid_with_length_zero:
  "assertValidObject
     [(''cmd'', JStr ''python''), (''length'', JNum 0), (''env'', JObj [(''PATH'', JStr ''/bin'')])]
     kernelOptions = Inr ()"
  by (simp add: assertValidObject_def each_entries_def size_of_def MAX_SAFE_INTEGER_def
      kernelOptions_def omit_def object_keys_def checkDefinition_def checkProperty_def own_prop_def)

text \<open>
  Claim C10. Options with a property other than \<open>cmd\<close> and \<open>cwd\<close> should make session
  creation and the interpreter check throw an error that names the properties not
  allowed, before a subprocess is started and before the session table gets an entry.
  The source counts the properties not allowed with \<open>_.size\<close>, which takes an object with
  a numeric \<open>length\<close> for a collection of that many elements. On the options
  \<open>{cmd: 'python', length: 0, env: {PATH: '/bin'}}\<close> the count is 0 and nothing is
  thrown: in any state, \<open>onCreateKernelInstance\<close> returns the id, has called \<open>create\<close>
  with these options and has stored the entry, and \<open>onCheckKernel\<close> has called \<open>check\<close>
  with them.
\<close>

theorem length_zero_is_accepted:
  "onCreateKernelInstance instanceId
      [(''cmd'', JStr ''python''), (''length'', JNum 0), (''env'', JObj [(''PATH'', JStr ''/bin'')])] st =
     (Inr instanceId,
      st\<lparr>creating := creating st @
            [(npromises st, instanceId,
              [(''cmd'', JStr ''python''), (''length'', JNum 0),
               (''env'', JObj [(''PATH'', JStr ''/bin'')])])],
         promises := (promises st)(npromises st := Pending []),
         branches := (branches st)(npromises st := 0),
         npromises := Suc (npromises st),
         kernelClients := (kernelClients st)(instanceId \<mapsto> npromises st)\<rparr>)
   \<and> onCheckKernel
       [(''cmd'', JStr ''python''), (''length'', JNum 0), (''env'', JObj [(''PATH'', JStr ''/bin'')])] st =
     (Inr (),
      st\<lparr>checks := checks st @
            [[(''cmd'', JStr ''python''), (''length'', JNum 0),
              (''env'', JObj [(''PATH'', JStr ''/bin'')])]]\<rparr>)"
  by (simp add: onCreateKernelInstance_def onCheckKernel_def valid_with_length_zero Let_def)

section \<open>Looking a session up\<close>

lemma get_absent:
  "kernelClients st id' = None \<Longrightarrow> id' \<notin> set objectPrototype \<Longrightarrow> kernelClients_get st id' = None"
  by (simp add: kernelClients_get_def)

lemma withKernelInstance_absent:
  "kernelClients st id' = None \<Longrightarrow> id' \<notin> set objectPrototype \<Longrightarrow>
   withKernelInstance id' req deadline st = (Inl (KernelThisIdDoesNotExist id'), st)"
  by (simp add: withKernelInstance_def getKernelInstanceById_def get_absent)

text \<open>
  Claim C4, as the specification has it: for an id that is not in the session table, every
  operation on a session fails at once with the error of the missing kernel. Two inputs
  show otherwise. \<open>onExecuteWithKernel\<close> tests its text first, so an empty text gives the
  error of the missing text whatever the id. And the table is a plain object: the id
  \<open>constructor\<close> is not in it, yet \<open>kernelClients['constructor']\<close> is a function, the test
  passes, and the operation fails on \<open>.then\<close> instead.
\<close>

theorem unknown_id_counterexample:
  "kernelClients init ''k9'' = None
   \<and> onExecuteWithKernel ''k9'' (JStr []) init = (Inl MissingText, init)
   \<and> kernelClients init ''constructor'' = None
   \<and> onGetStatus ''constructor'' init = (Inl ThenIsNotAFunction, init)
   \<and> onKillKernelInstance ''constructor'' init = (Inl ThenIsNotAFunction, init)"
  by (simp add: init_def onExecuteWithKernel_def onGetStatus_def onKillKernelInstance_def
      withKernelInstance_def getKernelInstanceById_def kernelClients_get_def objectPrototype_def)

text \<open>
  Claim C4, amended. For an id that is not in the session table and is not the name of a
  member inherited from \<open>Object.prototype\<close>, every operation on a session throws at once and
  leaves the state as it was: the error of the missing kernel for all of them, except that
  \<open>onExecuteWithKernel\<close> with an empty text throws the error of the missing text.
\<close>

theorem unknown_id_not_found:
  assumes "kernelClients st id' = None" and "id' \<notin> set objectPrototype"
  shows "(truthy text \<longrightarrow> onExecuteWithKernel id' text st = (Inl (KernelThisIdDoesNotExist id'), st))
       \<and> (\<not> truthy text \<longrightarrow> onExecuteWithKernel id' text st = (Inl MissingText, st))
       \<and> onExecuteHidden id' code resolveEvent st = (Inl (KernelThisIdDoesNotExist id'), st)
       \<and> onGetAutoComplete id' text cursorPos st = (Inl (KernelThisIdDoesNotExist id'), st)
       \<and> onIsComplete id' text st = (Inl (KernelThisIdDoesNotExist id'), st)
       \<and> onGetInspection id' text cursorPos st = (Inl (KernelThisIdDoesNotExist id'), st)
       \<and> onGetStatus id' st = (Inl (KernelThisIdDoesNotExist id'), st)
       \<and> onInterrupt id' st = (Inl (KernelThisIdDoesNotExist id'), st)
       \<and> onEval id' text st = (Inl (KernelThisIdDoesNotExist id'), st)
       \<and> onKillKernelInstance id' st = (Inl KernelThatIdDoesNotExist, st)"
  using assms
  by (simp add: onExecuteWithKernel_def onExecuteHidden_def onGetAutoComplete_def onIsComplete_def
      onGetInspection_def onGetStatus_def onInterrupt_def onEval_def onKillKernelInstance_def
      withKernelInstance_absent get_absent)

theorem unknown_id_not_found_witness:
  "onExecuteWithKernel ''k9'' (JStr ''1+1'') init = (Inl (KernelThisIdDoesNotExist ''k9''), init)
   \<and> onExecuteWithKernel ''k9'' (JStr []) init = (Inl MissingText, init)
   \<and> onGetStatus ''k9'' init = (Inl (KernelThisIdDoesNotExist ''k9''), init)
   \<and> onKillKernelInstance ''k9'' init = (Inl KernelThatIdDoesNotExist, init)"
  using unknown_id_not_found [of init "''k9''" "JStr ''1+1''"]
        unknown_id_not_found [of init "''k9''" "JStr []"]
  by (simp add: init_def objectPrototype_def)

section \<open>The life of a session\<close>

lemma created_k1_eq:
  "created_k1 =
     init\<lparr>creating := [(0, ''k1'', python3)], promises := (promises init)(0 := Pending []),
          npromises := Suc 0, kernelClients := [''k1'' \<mapsto> 0]\<rparr>"
  by (simp add: created_k1_def onCreateKernelInstance_def valid_python3 Let_def init_def
      fun_upd_idem)

lemma ready_k1_eq:
  "ready_k1 =
     init\<lparr>creating := [], promises := (promises init)(0 := Fulfilled 7),
          npromises := Suc 0, kernelClients := [''k1'' \<mapsto> 0], listeners := [(7, ''k1'', 0)]\<rparr>"
  by (simp add: ready_k1_def created_k1_eq resolveClient_def returnsCancelled_def init_def)

text \<open>
  Claim C9. For options that pass the validation, \<open>onCreateKernelInstance\<close> returns the id
  that \<open>cuid()\<close> made, and when it returns the id is in the session table with a promise
  that is pending: no client has been handed over, no handler is registered, the call of
  \<open>create\<close> is outstanding. A kill issued next finds the entry, does not throw, and waits
  on that promise: its request is queued, nothing is sent. (An id from \<open>cuid\<close> is a letter
  followed by digits in base 36; it is never \<open>__proto__\<close>, the one key that an assignment
  would not store as an own property.)
\<close>

theorem created_before_client:
  assumes "assertValidObject options kernelOptions = Inr ()" and "instanceId \<noteq> ''__proto__''"
  shows "(let (created, st1) = onCreateKernelInstance instanceId options st;
              (killed, st2) = onKillKernelInstance instanceId st1
          in created = Inr instanceId
           \<and> kernelClients st1 = (kernelClients st)(instanceId \<mapsto> npromises st)
           \<and> promises st1 (npromises st) = Pending []
           \<and> creating st1 = creating st @ [(npromises st, instanceId, options)]
           \<and> listeners st1 = listeners st
           \<and> calls st1 = calls st
           \<and> killed = Inr (nresults st)
           \<and> promises st2 (npromises st) = Pending [(Kill, nresults st)]
           \<and> results st2 (nresults st) = Waiting None
           \<and> calls st2 = calls st
           \<and> kernelClients st2 = kernelClients st1)"
  using assms
  by (simp add: onCreateKernelInstance_def onKillKernelInstance_def kernelClients_get_def Let_def)

theorem created_before_client_witness:
  "assertValidObject python3 kernelOptions = Inr ()
   \<and> (let (created, st1) = onCreateKernelInstance ''k1'' python3 init;
           (killed, st2) = onKillKernelInstance ''k1'' st1
       in created = Inr ''k1''
        \<and> kernelClients st1 ''k1'' = Some 0
        \<and> promises st1 0 = Pending []
        \<and> killed = Inr 0
        \<and> promises st2 0 = Pending [(Kill, 0)]
        \<and> calls st2 = []
        \<and> calls (run [ClientCreated 0 7, ClientReady 7] st2) = [(7, Kill, 0)])"
  using created_before_client [of python3 "''k1''" init]
  by (simp add: valid_python3 init_def onCreateKernelInstance_def onKillKernelInstance_def
      kernelClients_get_def resolveClient_def returnsCancelled_def Let_def split: prod.splits)

text \<open>
  Claim C2. Killing a session that is in the table should wait for its client, call
  \<open>kill()\<close> on it, and take the entry out of the table when the kill has resolved or
  rejected. The source waits and calls \<open>kill()\<close>, logs that the reference was deleted, and
  deletes nothing: on the ready session \<open>k1\<close> the kill is sent to the client, and after
  the client has rejected it, or resolved it, the entry is still in the table.
\<close>

theorem kill_leaves_entry:
  "kernelClients ready_k1 ''k1'' = Some 0
   \<and> promises ready_k1 0 = Fulfilled 7
   \<and> (let (killed, st1) = onKillKernelInstance ''k1'' ready_k1
       in killed = Inr 0
        \<and> calls st1 = [(7, Kill, 0)]
        \<and> results (react (ReplyError 0 (JStr ''ESRCH'')) st1) 0 = Failed (ClientError (JStr ''ESRCH''))
        \<and> kernelClients (react (ReplyError 0 (JStr ''ESRCH'')) st1) ''k1'' = Some 0
        \<and> results (react (Reply 0 JNull) st1) 0 = Resolved JUndefined
        \<and> kernelClients (react (Reply 0 JNull) st1) ''k1'' = Some 0)"
  by (simp add: ready_k1_eq onKillKernelInstance_def kernelClients_get_def init_def Let_def
      sent_def replyValue_def)

text \<open>
  Claim C3, as the specification has it: when the construction of the client rejects, the
  entry is removed and every caller that awaits the session's promise receives the
  failure. The entry is removed; the callers receive nothing. A status request made while
  \<open>k1\<close> is being created waits on the promise; after the rejection the entry is gone,
  the promise is still pending with the request queued on it, and the caller's promise is
  still waiting, also a minute later and after further events.
\<close>

theorem construction_failure_counterexample:
  "(let (waiting, st1) = onGetStatus ''k1'' created_k1;
        st2 = react (ClientFailed 0) st1
    in waiting = Inr 0
     \<and> kernelClients st2 ''k1'' = None
     \<and> promises st2 0 = Pending [(GetStatus, 0)]
     \<and> results st2 0 = Waiting None
     \<and> results (run [Elapse 60000, ClientReady 7, Reply 0 JNull] st2) 0 = Waiting None)"
  by (simp add: created_k1_eq onGetStatus_def withKernelInstance_def getKernelInstanceById_def
      kernelClients_get_def init_def Let_def sent_def timeoutFires_def)

text \<open>
  Claim C3, amended. When the construction of the client for a session rejects, the entry
  of the session is removed from the table, no other entry changes, the construction is
  not started again, and from then on the operations on that id throw the error of the
  missing kernel.
\<close>

theorem construction_failure_removes_entry:
  assumes "map_of (creating st) p = Some (instanceId, options)"
      and "instanceId \<notin> set objectPrototype"
  shows "(let st1 = react (ClientFailed p) st
          in kernelClients st1 = (kernelClients st)(instanceId := None)
           \<and> creating st1 = filter (\<lambda>e. fst e \<noteq> p) (creating st)
           \<and> map_of (creating st1) p = None
           \<and> getKernelInstanceById instanceId st1 = Inl (KernelThisIdDoesNotExist instanceId)
           \<and> onKillKernelInstance instanceId st1 = (Inl KernelThatIdDoesNotExist, st1))"
proof -
  have "map_of (filter (\<lambda>e. fst e \<noteq> p) (creating st)) p = None"
    by (induction "creating st") (auto simp: map_of_eq_None_iff)
  then show ?thesis using assms
    by (simp add: Let_def getKernelInstanceById_def onKillKernelInstance_def kernelClients_get_def)
qed

theorem construction_failure_removes_entry_witness:
  "kernelClients created_k1 ''k1'' = Some 0
   \<and> kernelClients (react (ClientFailed 0) created_k1) ''k1'' = None
   \<and> creating (react (ClientFailed 0) created_k1) = []
   \<and> onKillKernelInstance ''k1'' (react (ClientFailed 0) created_k1)
       = (Inl KernelThatIdDoesNotExist, react (ClientFailed 0) created_k1)"
  using construction_failure_removes_entry [of created_k1 0 "''k1''" python3]
  by (simp add: created_k1_eq objectPrototype_def init_def Let_def)

section \<open>The timeout of autocomplete\<close>




lemma resolveClient_keeps [simp]:
  "results (resolveClient p c st) = results st"
  "now (resolveClient p c st) = now st"
  "nresults (resolveClient p c st) = nresults st"
  "kernelClients (resolveClient p c st) = kernelClients st"
  by (simp_all add: resolveClient_def split: readiness.splits)

lemma emitReady_keeps [simp]:
  "results (emitReady c ls st) = results st"
  "now (emitReady c ls st) = now st"
  "nresults (emitReady c ls st) = nresults st"
  "kernelClients (emitReady c ls st) = kernelClients st"
  by (induction c ls st rule: emitReady.induct; simp)+

lemma emitClose_keeps [simp]:
  "results (emitClose c ls st) = results st"
  "now (emitClose c ls st) = now st"
  "nresults (emitClose c ls st) = nresults st"
  "calls (emitClose c ls st) = calls st"
  "promises (emitClose c ls st) = promises st"
  by (induction c ls st rule: emitClose.induct; simp)+






lemma cancelBy_keeps [simp]:
  "now (cancelBy q x s) = now s"
  "nresults (cancelBy q x s) = nresults s"
  "calls (cancelBy q x s) = calls s"
  "kernelClients (cancelBy q x s) = kernelClients s"
  by (simp_all add: cancelBy_def Let_def split: readiness.splits)


lemma timeoutFires_keeps [simp]:
  "now (timeoutFires x s) = now s"
  "nresults (timeoutFires x s) = nresults s"
  "calls (timeoutFires x s) = calls s"
  "kernelClients (timeoutFires x s) = kernelClients s"
  by (simp_all add: timeoutFires_def)



lemma on_time_timer_set: "on_time r deadline s \<Longrightarrow> timer_set r deadline s"
  by (auto simp: on_time_def timer_set_def split: if_splits)






lemma fold_timeoutFires_fulfilled:
  "promises s p = Fulfilled c \<Longrightarrow> promises (fold timeoutFires xs s) p = Fulfilled c"
proof (induction xs arbitrary: s)
  case Nil
  then show ?case by simp
next
  case (Cons x xs)
  have "promises (timeoutFires x s) p = Fulfilled c"
    using Cons.prems
    by (cases "promises s (chained s x)"; cases "chained s x = p")
       (auto simp: timeoutFires_def cancelBy_def Let_def)
  from Cons.IH [OF this] show ?case by simp
qed





section \<open>A promise that nothing resolves\<close>

lemma resolveClient_abandoned:
  assumes "abandoned p r s" and "q \<noteq> p"
  shows "abandoned p r (resolveClient q c s) \<and> promises (resolveClient q c s) p = promises s p"
proof (cases "promises s q")
  case (Pending ws)
  from assms have ws: "\<forall>w \<in> set ws. snd w \<noteq> r"
    using Pending by (auto simp: abandoned_def)
  have eq: "resolveClient q c s =
      s\<lparr>promises := (promises s)(q := Fulfilled c),
        calls := calls s @ map (\<lambda>w. (c, fst w, snd w)) ws\<rparr>"
    by (simp add: resolveClient_def Pending)
  have "\<not> sent (resolveClient q c s) r"
    using assms(1) ws by (auto simp: eq sent_def abandoned_def list_ex_iff)
  moreover have "\<forall>q'. q' \<noteq> p \<longrightarrow>
      (\<forall>w \<in> set (waiters (promises (resolveClient q c s) q')). snd w \<noteq> r)"
    using assms(1) by (simp add: eq abandoned_def)
  ultimately show ?thesis
    using assms by (simp add: abandoned_def eq)
qed (use assms in \<open>simp_all add: resolveClient_def\<close>)

lemma emitReady_abandoned:
  "abandoned p r s \<Longrightarrow> \<forall>l \<in> set ls. snd (snd l) \<noteq> p \<Longrightarrow>
   abandoned p r (emitReady c ls s) \<and> promises (emitReady c ls s) p = promises s p"
proof (induction c ls s rule: emitReady.induct)
  case (1 c st)
  then show ?case by simp
next
  case (2 c c' instanceId q ls st)
  then have q: "q \<noteq> p" by simp
  define st' where "st' = (if c' = c then resolveClient q c st else st)"
  have a: "abandoned p r st' \<and> promises st' p = promises st p"
    using resolveClient_abandoned [OF 2(2) q, of c] 2(2) by (simp add: st'_def)
  from 2(1) a 2(3) have "abandoned p r (emitReady c ls st') \<and>
      promises (emitReady c ls st') p = promises st' p"
    by (simp add: st'_def)
  with a show ?case by (simp add: st'_def)
qed

lemma emitClose_abandoned: "abandoned p r s \<Longrightarrow> abandoned p r (emitClose c ls s)"
proof (induction c ls s rule: emitClose.induct)
  case (1 c st)
  then show ?case by simp
next
  case (2 c c' instanceId q ls st)
  have "abandoned p r (st\<lparr>kernelClients := (kernelClients st)(instanceId := None)\<rparr>)"
    using 2(2) by (simp add: abandoned_def sent_def)
  with 2 show ?case by simp
qed

lemma emitClose_listeners [simp]: "listeners (emitClose c ls s) = listeners s"
  by (induction c ls s rule: emitClose.induct) simp_all

lemma cancelBy_frame [simp]:
  "creating (cancelBy q x s) = creating s"
  "listeners (cancelBy q x s) = listeners s"
  "chained (cancelBy q x s) = chained s"
  by (simp_all add: cancelBy_def Let_def split: readiness.splits)

lemma cancelBy_waiters:
  "set (waiters (promises (cancelBy q x s) q')) \<subseteq> set (waiters (promises s q'))"
  by (cases "promises s q") (auto simp: cancelBy_def Let_def)

lemma cancelBy_other: "q' \<noteq> q \<Longrightarrow> promises (cancelBy q x s) q' = promises s q'"
  by (cases "promises s q") (auto simp: cancelBy_def Let_def)

lemma cancelBy_waiting:
  "results (cancelBy q x s) y = Waiting d \<Longrightarrow> results s y = Waiting d"
  by (cases "promises s q") (auto simp: cancelBy_def Let_def split: if_splits)

lemma cancelBy_result:
  "\<forall>w \<in> set (waiters (promises s q)). snd w \<noteq> y \<Longrightarrow>
   results (cancelBy q x s) y = results s y"
  by (cases "promises s q") (auto simp: cancelBy_def Let_def)

lemma timeoutFires_abandoned:
  assumes "abandoned p r s"
  shows "abandoned p r (timeoutFires x s) \<and> promises (timeoutFires x s) p = promises s p"
proof (cases "due (now s) (results s x)")
  case False
  with assms show ?thesis by (simp add: timeoutFires_def)
next
  case True
  then obtain d where d: "results s x = Waiting (Some d)"
    by (cases "(now s, results s x)" rule: due.cases) auto
  with assms have q: "chained s x \<noteq> p" and xr: "x \<noteq> r"
    by (auto simp: abandoned_def)
  let ?q = "chained s x"
  let ?s = "s\<lparr>results := (results s)(x := Failed (TimeoutError autoCompleteMessage))\<rparr>"
  let ?t = "cancelBy ?q x ?s"
  have fires: "timeoutFires x s = ?t"
    using True by (simp add: timeoutFires_def)
  have nw: "\<forall>w \<in> set (waiters (promises ?s ?q)). snd w \<noteq> r"
    using assms q by (simp add: abandoned_def)
  have same: "promises ?t p = promises s p"
    using cancelBy_other [of p ?q x ?s] q by simp
  have a1: "\<forall>e \<in> set (creating ?t). fst e \<noteq> p"
    and a2: "\<forall>l \<in> set (listeners ?t). snd (snd l) \<noteq> p"
    and a5: "\<not> sent ?t r"
    using assms by (simp_all add: abandoned_def sent_def)
  have a3: "\<forall>q'. q' \<noteq> p \<longrightarrow> (\<forall>w \<in> set (waiters (promises ?t q')). snd w \<noteq> r)"
  proof (intro allI impI ballI)
    fix q' w
    assume "q' \<noteq> p" and "w \<in> set (waiters (promises ?t q'))"
    then have "w \<in> set (waiters (promises s q'))"
      using cancelBy_waiters [of ?q x ?s q'] by auto
    with assms \<open>q' \<noteq> p\<close> show "snd w \<noteq> r"
      by (simp add: abandoned_def)
  qed
  have a4: "\<forall>y e. results ?t y = Waiting (Some e) \<longrightarrow> chained ?t y \<noteq> p"
  proof (intro allI impI)
    fix y e
    assume "results ?t y = Waiting (Some e)"
    then have "results ?s y = Waiting (Some e)"
      by (rule cancelBy_waiting)
    then have "results s y = Waiting (Some e)"
      by (simp split: if_splits)
    with assms show "chained ?t y \<noteq> p"
      by (simp add: abandoned_def)
  qed
  have a6: "results ?t r = Waiting None"
    using cancelBy_result [OF nw, of x] assms xr by (simp add: abandoned_def)
  show ?thesis
    unfolding fires abandoned_def using a1 a2 a3 a4 a5 a6 same by blast
qed

lemma fold_timeoutFires_abandoned:
  "abandoned p r s \<Longrightarrow>
   abandoned p r (fold timeoutFires xs s) \<and> promises (fold timeoutFires xs s) p = promises s p"
proof (induction xs arbitrary: s)
  case Nil
  then show ?case by simp
next
  case (Cons x xs)
  from timeoutFires_abandoned [OF Cons.prems, of x] Cons.IH [of "timeoutFires x s"]
  show ?case by simp
qed

lemma react_abandoned:
  assumes "abandoned p r s"
  shows "abandoned p r (react e s) \<and> promises (react e s) p = promises s p"
proof (cases e)
  case (ClientCreated q c)
  show ?thesis
  proof (cases "map_of (creating s) q")
    case None
    with assms ClientCreated show ?thesis by simp
  next
    case (Some io)
    then have "q \<in> fst ` set (creating s)"
      by (metis domI dom_map_of_conv_image_fst)
    with assms have "q \<noteq> p"
      by (auto simp: abandoned_def)
    with assms Some ClientCreated show ?thesis
      by (cases io) (auto simp: abandoned_def sent_def Let_def)
  qed
next
  case (ClientFailed q)
  with assms show ?thesis
    by (auto simp: abandoned_def sent_def split: option.splits)
next
  case (ClientReady c)
  with assms emitReady_abandoned [of p r s "listeners s" c] show ?thesis
    by (simp add: abandoned_def)
next
  case (ClientClose c)
  with assms emitClose_abandoned [of p r s c "listeners s"] show ?thesis
    by simp
next
  case (Reply r' v)
  with assms show ?thesis
    by (auto simp: abandoned_def sent_def split: outcome.splits)
next
  case (ReplyError r' v)
  with assms show ?thesis
    by (auto simp: abandoned_def sent_def split: outcome.splits)
next
  case (Elapse ms)
  have "abandoned p r (s\<lparr>now := now s + ms\<rparr>)"
    using assms by (simp add: abandoned_def sent_def)
  from fold_timeoutFires_abandoned [OF this, of "[0 ..< nresults s]"] Elapse
  show ?thesis by simp
qed

lemma abandoned_forever:
  "abandoned p r s \<Longrightarrow>
   promises (run es s) p = promises s p \<and> results (run es s) r = Waiting None"
proof (induction es arbitrary: s)
  case Nil
  then show ?case by (simp add: abandoned_def)
next
  case (Cons e es)
  from react_abandoned [OF Cons.prems, of e] Cons.IH [of "react e s"]
  show ?case by simp
qed

lemma failed_k1_abandoned:
  "abandoned 0 0 (react (ClientFailed 0) (snd (onGetStatus ''k1'' created_k1)))"
  by (simp add: created_k1_eq onGetStatus_def withKernelInstance_def getKernelInstanceById_def
      kernelClients_get_def init_def Let_def sent_def abandoned_def)

lemma failed_k1_waits_forever:
  "promises (run es (react (ClientFailed 0) (snd (onGetStatus ''k1'' created_k1)))) 0
     = Pending [(GetStatus, 0)]
   \<and> results (run es (react (ClientFailed 0) (snd (onGetStatus ''k1'' created_k1)))) 0
     = Waiting None"
  using abandoned_forever [OF failed_k1_abandoned, of es]
  by (simp add: created_k1_eq onGetStatus_def withKernelInstance_def getKernelInstanceById_def
      kernelClients_get_def init_def Let_def)

section \<open>Files and routes\<close>

lemma longest_bound: "n \<in> set used \<Longrightarrow> length n \<le> foldr (\<lambda>n. max (length n)) used 0"
  by (induction used) auto

lemma fresh_name_longer: "n \<in> set used \<Longrightarrow> length n < length (fresh_name used)"
  by (simp add: fresh_name_def longest_bound less_Suc_eq_le)

lemma fresh_path: "pre @ fresh_name used @ post \<notin> set used"
proof
  assume "pre @ fresh_name used @ post \<in> set used"
  from fresh_name_longer [OF this] show False by simp
qed

lemma map_of_fresh:
  assumes "k \<notin> fst ` set xs" and "map_of xs k' = Some v"
  shows "map_of ((k, w) # xs) k' = Some v"
proof -
  have "map_of xs k = None"
    using assms(1) by (simp add: map_of_eq_None_iff)
  then have "k' \<noteq> k"
    using assms(2) by auto
  then show ?thesis
    using assms(2) by simp
qed

lemma truthy_defined: "truthy v \<Longrightarrow> v \<noteq> JUndefined"
  by auto

lemma extends_refl: "extends a a"
  by (simp add: extends_def)

lemma extends_keys:
  assumes "extends a b"
  shows "fst ` set (urls a) \<subseteq> fst ` set (urls b)" and "fst ` set (files a) \<subseteq> fst ` set (files b)"
proof -
  have "\<And>xs ys :: (string \<times> 'v) list. (\<forall>k v. map_of xs k = Some v \<longrightarrow> map_of ys k = Some v) \<Longrightarrow>
     fst ` set xs \<subseteq> fst ` set ys"
  proof
    fix xs ys :: "(string \<times> 'v) list" and k
    assume h: "\<forall>k v. map_of xs k = Some v \<longrightarrow> map_of ys k = Some v" and "k \<in> fst ` set xs"
    then obtain v where "map_of xs k = Some v"
      by (metis domD dom_map_of_conv_image_fst)
    with h have "map_of ys k = Some v" by blast
    then show "k \<in> fst ` set ys"
      by (metis domI dom_map_of_conv_image_fst)
  qed
  from this [of "urls a" "urls b"] this [of "files a" "files b"] assms
  show "fst ` set (urls a) \<subseteq> fst ` set (urls b)" and "fst ` set (files a) \<subseteq> fst ` set (files b)"
    by (simp_all add: extends_def)
qed

lemma saveToTemporaryFile_new:
  assumes "saveToTemporaryFile extension content a = (filepath, a')"
  shows "filepath \<notin> fst ` set (files a)" and "files a' = (filepath, content) # files a"
    and "urls a' = urls a"
  using assms fresh_path [of "''/tmp/''" "map fst (files a)" extension]
  by (auto simp: saveToTemporaryFile_def Let_def)

lemma addRouteToFile_new:
  assumes "addRouteToFile filepath route a = (key, a')"
  shows "key \<notin> fst ` set (urls a)" and "urls a' = (key, filepath) # urls a"
    and "files a' = files a"
  using assms fresh_path [of route "map fst (urls a)" "[]"]
  by (auto simp: addRouteToFile_def Let_def split: if_splits)

section \<open>Reading and writing properties\<close>

lemma get_path_undefined: "get_path JUndefined ks = JUndefined"
  by (induction ks) simp_all

lemma get_defined: "get v k \<noteq> JUndefined \<Longrightarrow> \<exists>kvs. v = JObj kvs \<and> k \<in> fst ` set kvs"
proof (cases v)
  case (JObj kvs)
  assume "get v k \<noteq> JUndefined"
  then have "map_of kvs k \<noteq> None"
    by (auto simp: JObj own_prop_def split: option.splits)
  then have "k \<in> fst ` set kvs"
    by (simp add: map_of_eq_None_iff)
  with JObj show ?thesis by simp
qed simp_all

lemma own_prop_assign: "own_prop (assign kvs k v) q = (if q = k then v else own_prop kvs q)"
  by (induction kvs) (auto simp: own_prop_def)

lemma keys_assign: "k \<in> fst ` set kvs \<Longrightarrow> map fst (assign kvs k v) = map fst kvs"
  by (induction kvs) force+

lemma assign_same: "map_of kvs k = Some v \<Longrightarrow> assign kvs k v = kvs"
  by (induction kvs) (auto split: if_splits)

lemma get_path_set_path:
  "get_path v ks \<noteq> JUndefined \<Longrightarrow> get_path (set_path v ks x) ks = x"
proof (induction ks arbitrary: v)
  case Nil
  then show ?case by simp
next
  case (Cons k ks)
  then have "get v k \<noteq> JUndefined"
    by (auto simp: get_path_undefined)
  then obtain kvs where v: "v = JObj kvs"
    using get_defined by blast
  from Cons show ?case
    by (simp add: v own_prop_assign)
qed

lemma set_path_same: "get_path v ks \<noteq> JUndefined \<Longrightarrow> set_path v ks (get_path v ks) = v"
proof (induction ks arbitrary: v)
  case Nil
  then show ?case by simp
next
  case (Cons k ks)
  then have d: "get v k \<noteq> JUndefined"
    by (auto simp: get_path_undefined)
  then obtain kvs where v: "v = JObj kvs"
    using get_defined by blast
  from d obtain w where w: "map_of kvs k = Some w"
    by (auto simp: v own_prop_def split: option.splits)
  then have "get v k = w"
    by (simp add: v own_prop_def)
  with Cons w show ?case
    by (simp add: v assign_same)
qed

lemma has_key_set_path:
  assumes "get_path v (k # ks) \<noteq> JUndefined"
  shows "has_key (set_path v (k # ks) x) key = has_key v key"
proof -
  from assms have "get v k \<noteq> JUndefined"
    by (auto simp: get_path_undefined)
  then obtain kvs where "v = JObj kvs" "k \<in> fst ` set kvs"
    using get_defined by blast
  then show ?thesis
    by (simp add: keys_assign)
qed

lemma lodash_get_mutated:
  assumes "lodash_get v (k # ks) \<noteq> JUndefined"
  shows "lodash_get (mutated v (k # ks) x) (k # ks) = x"
proof (cases "has_key v (joinPath (k # ks))")
  case True
  then obtain kvs where v: "v = JObj kvs" and "joinPath (k # ks) \<in> fst ` set kvs"
    by (cases v) auto
  then show ?thesis
    using True by (simp add: lodash_get_def mutated_def keys_assign own_prop_assign)
next
  case False
  with assms have d: "get_path v (k # ks) \<noteq> JUndefined"
    by (simp add: lodash_get_def)
  have "\<not> has_key (set_path v (k # ks) x) (joinPath (k # ks))"
    using False has_key_set_path [OF d] by simp
  then show ?thesis
    using False get_path_set_path [OF d] by (simp add: lodash_get_def mutated_def)
qed

lemma mutated_same:
  assumes "lodash_get v (k # ks) \<noteq> JUndefined"
  shows "mutated v (k # ks) (lodash_get v (k # ks)) = v"
proof (cases "has_key v (joinPath (k # ks))")
  case True
  then obtain kvs where v: "v = JObj kvs" and "joinPath (k # ks) \<in> fst ` set kvs"
    by (cases v) auto
  with assms obtain w where "map_of kvs (joinPath (k # ks)) = Some w"
    using True by (auto simp: lodash_get_def own_prop_def split: option.splits)
  then show ?thesis
    using True by (simp add: lodash_get_def mutated_def v own_prop_def assign_same)
next
  case False
  with assms have d: "get_path v (k # ks) \<noteq> JUndefined"
    by (simp add: lodash_get_def)
  from set_path_same [OF d] False show ?thesis
    by (simp add: lodash_get_def mutated_def)
qed

section \<open>One field\<close>

lemma replace_untouched:
  "\<not> truthy (get data property) \<Longrightarrow>
   replacePropertyWithTemporaryFile extension data property a = (data, a)"
  by (simp add: replacePropertyWithTemporaryFile_def)

lemma replace_rewrites:
  assumes "truthy (get data property)"
  shows "\<exists>route filepath a'.
           replacePropertyWithTemporaryFile extension data property a
             = (set_prop data property (JStr route), a')
         \<and> route \<notin> fst ` set (urls a) \<and> filepath \<notin> fst ` set (files a)
         \<and> map_of (urls a') route = Some filepath
         \<and> map_of (files a') filepath = Some (get data property)
         \<and> extends a a'"
proof -
  obtain filepath a1 where s: "saveToTemporaryFile extension (get data property) a = (filepath, a1)"
    by (cases "saveToTemporaryFile extension (get data property) a")
  obtain route a2 where r: "addRouteToFile filepath (''/'' @ lastOfSplit filepath) a1 = (route, a2)"
    by (cases "addRouteToFile filepath (''/'' @ lastOfSplit filepath) a1")
  note S = saveToTemporaryFile_new [OF s] and R = addRouteToFile_new [OF r]
  have f: "map_of (files a2) k = Some v" if "map_of (files a) k = Some v" for k v
    unfolding R(3) S(2) using S(1) that by (rule map_of_fresh)
  have u: "map_of (urls a2) k = Some v" if "map_of (urls a) k = Some v" for k v
    unfolding R(2) S(3) using R(1) [unfolded S(3)] that by (rule map_of_fresh)
  have "extends a a2"
    by (simp add: extends_def f u)
  moreover have "replacePropertyWithTemporaryFile extension data property a
      = (set_prop data property (JStr route), a2)"
    using assms r by (simp add: replacePropertyWithTemporaryFile_def s)
  ultimately show ?thesis
    using S R by auto
qed

lemma replace_get:
  assumes "replacePropertyWithTemporaryFile extension data property a = (data', a')"
  shows "extends a a'" and "q \<noteq> property \<Longrightarrow> get data' q = get data q"
    and "get data q = JUndefined \<Longrightarrow> get data' q = JUndefined"
proof -
  have "extends a a' \<and> (q \<noteq> property \<longrightarrow> get data' q = get data q)
      \<and> (get data q = JUndefined \<longrightarrow> get data' q = JUndefined)"
  proof (cases "truthy (get data property)")
    case True
    then obtain kvs where kvs: "data = JObj kvs"
      using get_defined [of data property] truthy_defined by blast
    from replace_rewrites [OF True, of extension a] assms
    obtain route where "data' = set_prop data property (JStr route)" and "extends a a'"
      by auto
    then show ?thesis
      using True by (auto simp: kvs own_prop_assign)
  next
    case False
    with assms show ?thesis
      by (simp add: replace_untouched extends_refl)
  qed
  then show "extends a a'" and "q \<noteq> property \<Longrightarrow> get data' q = get data q"
    and "get data q = JUndefined \<Longrightarrow> get data' q = JUndefined"
    by simp_all
qed

lemma replace_serves:
  assumes "truthy (get data property)"
  shows "\<exists>data' a' route filepath.
           replacePropertyWithTemporaryFile extension data property a = (data', a')
         \<and> served data' a' property route filepath (get data property)
         \<and> route \<notin> fst ` set (urls a) \<and> filepath \<notin> fst ` set (files a)"
proof -
  obtain kvs where kvs: "data = JObj kvs"
    using assms get_defined [of data property] truthy_defined by blast
  from replace_rewrites [OF assms, of extension a] show ?thesis
    by (auto simp: served_def kvs own_prop_assign)
qed

lemma replace_keeps_served:
  assumes "replacePropertyWithTemporaryFile extension data property a = (data', a')"
      and "q \<noteq> property" and "served data a q route filepath content"
  shows "served data' a' q route filepath content"
  using replace_get [OF assms(1)] assms(2,3)
  by (simp add: served_def extends_def)

lemma replace_keeps_fresh:
  assumes "replacePropertyWithTemporaryFile extension data property a = (data', a')"
      and "route \<notin> fst ` set (urls a')" and "filepath \<notin> fst ` set (files a')"
  shows "route \<notin> fst ` set (urls a)" and "filepath \<notin> fst ` set (files a)"
  using extends_keys [OF replace_get(1) [OF assms(1)]] assms(2,3) by auto

section \<open>The transform\<close>

lemma dataPath_cons: "dataPath = ''result'' # [''content'', ''data'']"
  by (simp add: dataPath_def)

lemma transform_display:
  assumes "lodash_get event typePath = JStr ''display_data''"
      and "truthy (lodash_get event dataPath)"
      and "(if truthy (get (lodash_get event dataPath) ''image/png'')
            then map_sum id (\<lambda>b. set_prop (lodash_get event dataPath) ''image/png'' (JBuffer b))
                   (Buffer (get (lodash_get event dataPath) ''image/png'') ''base64'')
            else Inr (lodash_get event dataPath)) = Inr data0"
      and "replacePropertyWithTemporaryFile ''.html'' data0 ''text/html'' a = (data1, a1)"
      and "replacePropertyWithTemporaryFile ''.png'' data1 ''image/png'' a1 = (data2, a2)"
      and "replacePropertyWithTemporaryFile ''.svg'' data2 ''image/svg'' a2 = (data3, a3)"
  shows "displayDataTransform Buffer event a = (Inr (mutated event dataPath data3), a3)"
  using assms(1,2,4,5,6)
  by (simp add: displayDataTransform_def Let_def assms(3))

lemma transform_written:
  "truthy (lodash_get event dataPath) \<Longrightarrow>
   lodash_get (mutated event dataPath data) dataPath = data"
  unfolding dataPath_cons using truthy_defined by (intro lodash_get_mutated) auto

lemma transform_rewrites:
  assumes disp: "lodash_get event typePath = JStr ''display_data''"
      and recognized: "property \<in> {''text/html'', ''image/png'', ''image/svg''}"
      and val: "truthy (get (lodash_get event dataPath) property)"
      and png: "truthy (get (lodash_get event dataPath) ''image/png'') \<Longrightarrow>
                Buffer (get (lodash_get event dataPath) ''image/png'') ''base64'' = Inr b"
  shows "\<exists>event' a' route filepath.
           displayDataTransform Buffer event a = (Inr event', a')
         \<and> served (lodash_get event' dataPath) a' property route filepath
              (if property = ''image/png'' then JBuffer b
               else get (lodash_get event dataPath) property)
         \<and> route \<notin> fst ` set (urls a) \<and> filepath \<notin> fst ` set (files a)"
proof -
  define data where "data = lodash_get event dataPath"
  obtain kvs where kvs: "data = JObj kvs"
    using val get_defined [of data property] truthy_defined by (auto simp: data_def)
  have tr: "truthy data" by (simp add: kvs)
  define data0 where
    "data0 = (if truthy (get data ''image/png'') then set_prop data ''image/png'' (JBuffer b) else data)"
  have d0: "(if truthy (get data ''image/png'')
            then map_sum id (\<lambda>b. set_prop data ''image/png'' (JBuffer b))
                   (Buffer (get data ''image/png'') ''base64'')
            else Inr data) = Inr data0"
    using png by (auto simp: data0_def data_def)
  have g0: "get data0 q = (if q = ''image/png'' \<and> truthy (get data ''image/png'') then JBuffer b else get data q)" for q
    by (simp add: data0_def kvs own_prop_assign)
  define content where "content = (if property = ''image/png'' then JBuffer b else get data property)"
  have c0: "get data0 property = content" and t0: "truthy (get data0 property)"
    using val by (auto simp: g0 content_def data_def)
  obtain data1 a1 where r1: "replacePropertyWithTemporaryFile ''.html'' data0 ''text/html'' a = (data1, a1)"
    by (cases "replacePropertyWithTemporaryFile ''.html'' data0 ''text/html'' a")
  obtain data2 a2 where r2: "replacePropertyWithTemporaryFile ''.png'' data1 ''image/png'' a1 = (data2, a2)"
    by (cases "replacePropertyWithTemporaryFile ''.png'' data1 ''image/png'' a1")
  obtain data3 a3 where r3: "replacePropertyWithTemporaryFile ''.svg'' data2 ''image/svg'' a2 = (data3, a3)"
    by (cases "replacePropertyWithTemporaryFile ''.svg'' data2 ''image/svg'' a2")
  have T: "displayDataTransform Buffer event a = (Inr (mutated event dataPath data3), a3)"
    using disp tr d0 r1 r2 r3 unfolding data_def by (rule transform_display)
  have written: "lodash_get (mutated event dataPath data3) dataPath = data3"
    using tr unfolding data_def by (rule transform_written)
  have "\<exists>route filepath. served data3 a3 property route filepath content
          \<and> route \<notin> fst ` set (urls a) \<and> filepath \<notin> fst ` set (files a)"
  proof -
    consider "property = ''text/html''" | "property = ''image/png''" | "property = ''image/svg''"
      using recognized by auto
    then show ?thesis
    proof cases
      case 1
      from replace_serves [of data0 "''text/html''" "''.html''" a] t0 c0 r1 1
      obtain route filepath where s: "served data1 a1 property route filepath content"
        and f: "route \<notin> fst ` set (urls a)" "filepath \<notin> fst ` set (files a)"
        by auto
      have "served data2 a2 property route filepath content"
        using r2 _ s by (rule replace_keeps_served) (simp add: 1)
      then have "served data3 a3 property route filepath content"
        using r3 by (intro replace_keeps_served [OF r3]) (simp_all add: 1)
      with f show ?thesis by blast
    next
      case 2
      have "get data1 property = get data0 property"
        using replace_get(2) [OF r1, of property] by (simp add: 2)
      with replace_serves [of data1 "''image/png''" "''.png''" a1] t0 c0 r2 2
      obtain route filepath where s: "served data2 a2 property route filepath content"
        and f: "route \<notin> fst ` set (urls a1)" "filepath \<notin> fst ` set (files a1)"
        by auto
      have "served data3 a3 property route filepath content"
        using r3 _ s by (rule replace_keeps_served) (simp add: 2)
      with replace_keeps_fresh [OF r1 f] show ?thesis by blast
    next
      case 3
      have "get data1 property = get data0 property"
        using replace_get(2) [OF r1, of property] by (simp add: 3)
      moreover have "get data2 property = get data1 property"
        using replace_get(2) [OF r2, of property] by (simp add: 3)
      ultimately have "truthy (get data2 ''image/svg'')" "get data2 ''image/svg'' = content"
        using t0 c0 3 by auto
      with replace_serves [of data2 "''image/svg''" "''.svg''" a2] r3 3
      obtain route filepath where s: "served data3 a3 property route filepath content"
        and f: "route \<notin> fst ` set (urls a2)" "filepath \<notin> fst ` set (files a2)"
        by auto
      from replace_keeps_fresh [OF r2 f] have "route \<notin> fst ` set (urls a1)" "filepath \<notin> fst ` set (files a1)" .
      from replace_keeps_fresh [OF r1 this] s show ?thesis by blast
    qed
  qed
  then obtain route filepath where "served data3 a3 property route filepath content"
    and "route \<notin> fst ` set (urls a)" and "filepath \<notin> fst ` set (files a)"
    by blast
  then have "displayDataTransform Buffer event a = (Inr (mutated event dataPath data3), a3)
      \<and> served (lodash_get (mutated event dataPath data3) dataPath) a3 property route filepath
           content
      \<and> route \<notin> fst ` set (urls a) \<and> filepath \<notin> fst ` set (files a)"
    using T by (simp add: written)
  then show ?thesis unfolding content_def data_def by blast
qed

lemma transform_keeps_undefined:
  assumes "displayDataTransform Buffer event a = (Inr event', a')"
      and "get (lodash_get event dataPath) property = JUndefined"
  shows "get (lodash_get event' dataPath) property = JUndefined"
proof (cases "lodash_get event typePath = JStr ''display_data'' \<and> truthy (lodash_get event dataPath)")
  case False
  with assms show ?thesis
    by (auto simp: displayDataTransform_def Let_def)
next
  case True
  let ?data = "lodash_get event dataPath"
  let ?decoded = "if truthy (get ?data ''image/png'')
       then map_sum id (\<lambda>b. set_prop ?data ''image/png'' (JBuffer b))
              (Buffer (get ?data ''image/png'') ''base64'')
       else Inr ?data"
  have unfolded: "displayDataTransform Buffer event a =
      (case ?decoded of Inl e \<Rightarrow> (Inl e, a)
       | Inr data0 \<Rightarrow>
          (let (data1, a1) = replacePropertyWithTemporaryFile ''.html'' data0 ''text/html'' a;
               (data2, a2) = replacePropertyWithTemporaryFile ''.png'' data1 ''image/png'' a1;
               (data3, a3) = replacePropertyWithTemporaryFile ''.svg'' data2 ''image/svg'' a2
           in (Inr (mutated event dataPath data3), a3)))"
    using True by (simp add: displayDataTransform_def Let_def)
  obtain data0 where d0: "?decoded = Inr data0"
  proof (cases ?decoded)
    case (Inl e)
    with unfolded assms(1) show ?thesis by simp
  next
    case (Inr d)
    then show ?thesis by (rule that)
  qed
  have u0: "get data0 property = JUndefined"
  proof (cases "truthy (get ?data ''image/png'')")
    case False
    with d0 assms(2) show ?thesis by simp
  next
    case t: True
    then obtain kvs where kvs: "?data = JObj kvs"
      using get_defined [of ?data "''image/png''"] truthy_defined by blast
    from t assms(2) have ne: "property \<noteq> ''image/png''"
      by auto
    from d0 t obtain b where "data0 = set_prop ?data ''image/png'' (JBuffer b)"
      by (cases "Buffer (get ?data ''image/png'') ''base64''") auto
    then have "get data0 property = get ?data property"
      using ne unfolding kvs by (simp add: own_prop_assign)
    with assms(2) show ?thesis by simp
  qed
  obtain data1 a1 where r1: "replacePropertyWithTemporaryFile ''.html'' data0 ''text/html'' a = (data1, a1)"
    by (cases "replacePropertyWithTemporaryFile ''.html'' data0 ''text/html'' a")
  obtain data2 a2 where r2: "replacePropertyWithTemporaryFile ''.png'' data1 ''image/png'' a1 = (data2, a2)"
    by (cases "replacePropertyWithTemporaryFile ''.png'' data1 ''image/png'' a1")
  obtain data3 a3 where r3: "replacePropertyWithTemporaryFile ''.svg'' data2 ''image/svg'' a2 = (data3, a3)"
    by (cases "replacePropertyWithTemporaryFile ''.svg'' data2 ''image/svg'' a2")
  have "displayDataTransform Buffer event a = (Inr (mutated event dataPath data3), a3)"
    using True [THEN conjunct1] True [THEN conjunct2] d0 r1 r2 r3 by (rule transform_display)
  with assms(1) have e: "event' = mutated event dataPath data3" by simp
  have "lodash_get (mutated event dataPath data3) dataPath = data3"
    using True by (intro transform_written) simp
  moreover have "get data3 property = JUndefined"
    using replace_get(3) [OF r3] replace_get(3) [OF r2] replace_get(3) [OF r1] u0 by blast
  ultimately show ?thesis by (simp add: e)
qed

lemma transform_nothing_to_do:
  assumes "lodash_get event typePath \<noteq> JStr ''display_data''
           \<or> (\<not> truthy (get (lodash_get event dataPath) ''text/html'')
              \<and> \<not> truthy (get (lodash_get event dataPath) ''image/png'')
              \<and> \<not> truthy (get (lodash_get event dataPath) ''image/svg''))"
  shows "displayDataTransform Buffer event a = (Inr event, a)"
proof (cases "lodash_get event typePath = JStr ''display_data'' \<and> truthy (lodash_get event dataPath)")
  case False
  then show ?thesis
    by (auto simp: displayDataTransform_def Let_def)
next
  case True
  with assms have f: "\<not> truthy (get (lodash_get event dataPath) ''text/html'')"
    "\<not> truthy (get (lodash_get event dataPath) ''image/png'')"
    "\<not> truthy (get (lodash_get event dataPath) ''image/svg'')"
    by auto
  have "mutated event dataPath (lodash_get event dataPath) = event"
    unfolding dataPath_cons using True truthy_defined
    by (intro mutated_same) (auto simp: dataPath_cons)
  then show ?thesis
    using True f by (simp add: displayDataTransform_def Let_def replace_untouched)
qed

lemma not_object_no_fields: "\<not> isPlainObject v \<Longrightarrow> get v k = JUndefined"
  by (cases v) simp_all

lemmas transform_eval =
  displayDataTransform_def display_data_def dataPath_def typePath_def lodash_get_def mutated_def
  own_prop_def replacePropertyWithTemporaryFile_def saveToTemporaryFile_def addRouteToFile_def
  fresh_name_def lastOfSplit_def no_artifacts_def Let_def

lemma html_first_pass:
  "displayDataTransform base64Buffer (display_data [(''text/html'', JStr ''<b>hi</b>'')]) no_artifacts
     = (Inr (display_data [(''text/html'', JStr ''/t.html'')]),
        \<lparr>files = [(''/tmp/t.html'', JStr ''<b>hi</b>'')], urls = [(''/t.html'', ''/tmp/t.html'')]\<rparr>)"
  by (simp add: transform_eval)

lemma base64_png: "base64 ''iVBORw=='' = Some [0x89, 0x50, 0x4E, 0x47]"
  by (simp add: quad_def sextet_def base64_alphabet_def byte1_def byte2_def byte3_def)

text \<open>
  An event that carries its type and its data under keys named by the whole path is a
  display-data event for \<open>_.get\<close>, and is rewritten where it carries the data; an event
  that carries a key \<open>result.msg_type\<close> of another type beside the nested one is not.
\<close>

lemma flat_event_is_rewritten:
  "displayDataTransform base64Buffer
     (JObj [(''result.msg_type'', JStr ''display_data''),
            (''result.content.data'', JObj [(''text/html'', JStr ''<b>hi</b>'')])]) no_artifacts
     = (Inr (JObj [(''result.msg_type'', JStr ''display_data''),
                   (''result.content.data'', JObj [(''text/html'', JStr ''/t.html'')])]),
        \<lparr>files = [(''/tmp/t.html'', JStr ''<b>hi</b>'')], urls = [(''/t.html'', ''/tmp/t.html'')]\<rparr>)"
  by (simp add: transform_eval)

lemma shadowed_event_passes:
  "displayDataTransform base64Buffer
     (JObj [(''result.msg_type'', JStr ''stream''),
            (''result'', JObj [(''msg_type'', JStr ''display_data''),
                              (''content'', JObj [(''data'', JObj [(''image/png'', JStr ''iVBORw=='')])])])])
     no_artifacts
     = (Inr (JObj [(''result.msg_type'', JStr ''stream''),
            (''result'', JObj [(''msg_type'', JStr ''display_data''),
                              (''content'', JObj [(''data'', JObj [(''image/png'', JStr ''iVBORw=='')])])])]),
        no_artifacts)"
  by (simp add: transform_eval)

text \<open>
  Claim C6, as the specification has it: a field that has been rewritten to a route key is
  not rewritten when the same event goes through the transform again. The source keeps no
  mark of what it has rewritten and tests the field for being non-empty only, so the
  second pass writes the route key to a new file and puts a new route in the field.
\<close>

theorem transform_twice_counterexample:
  "displayDataTransform base64Buffer (display_data [(''text/html'', JStr ''<b>hi</b>'')]) no_artifacts
     = (Inr (display_data [(''text/html'', JStr ''/t.html'')]),
        \<lparr>files = [(''/tmp/t.html'', JStr ''<b>hi</b>'')], urls = [(''/t.html'', ''/tmp/t.html'')]\<rparr>)
   \<and> displayDataTransform base64Buffer (display_data [(''text/html'', JStr ''/t.html'')])
        \<lparr>files = [(''/tmp/t.html'', JStr ''<b>hi</b>'')], urls = [(''/t.html'', ''/tmp/t.html'')]\<rparr>
     = (Inr (display_data [(''text/html'', JStr ''/tttttttttttt.html'')]),
        \<lparr>files = [(''/tmp/tttttttttttt.html'', JStr ''/t.html''), (''/tmp/t.html'', JStr ''<b>hi</b>'')],
         urls = [(''/tttttttttttt.html'', ''/tmp/tttttttttttt.html''), (''/t.html'', ''/tmp/t.html'')]\<rparr>)"
  by (simp add: transform_eval)

text \<open>
  Claim C6, amended. The transform is not idempotent: a recognized field of a display-data
  event (as \<open>_.get\<close> reads it) that holds a route key from an earlier pass is rewritten
  again. The pass stores the old route key (for \<open>image/png\<close>, the bytes that the runtime
  decodes from it as base64) in a new temporary file, one that was not there before, and
  replaces the field with a route key that was not in the route table before, hence
  different from the old one, and that leads to that file.
\<close>

theorem route_rewritten_again:
  assumes "lodash_get event typePath = JStr ''display_data''"
      and "property \<in> {''text/html'', ''image/png'', ''image/svg''}"
      and "get (lodash_get event dataPath) property = JStr r" and "r \<noteq> []"
      and "r \<in> fst ` set (urls a)"
      and "truthy (get (lodash_get event dataPath) ''image/png'') \<longrightarrow>
           Buffer (get (lodash_get event dataPath) ''image/png'') ''base64'' = Inr b"
  shows "\<exists>event' a' route filepath.
           displayDataTransform Buffer event a = (Inr event', a')
         \<and> get (lodash_get event' dataPath) property = JStr route
         \<and> route \<noteq> r \<and> route \<notin> fst ` set (urls a)
         \<and> filepath \<notin> fst ` set (files a)
         \<and> map_of (urls a') route = Some filepath
         \<and> map_of (files a') filepath = Some (if property = ''image/png'' then JBuffer b else JStr r)"
proof -
  have "truthy (get (lodash_get event dataPath) property)"
    using assms(3,4) by simp
  from transform_rewrites [OF assms(1,2) this, of Buffer b a] assms(6)
  obtain event' a' route filepath where
    "displayDataTransform Buffer event a = (Inr event', a')"
    "served (lodash_get event' dataPath) a' property route filepath
       (if property = ''image/png'' then JBuffer b else get (lodash_get event dataPath) property)"
    "route \<notin> fst ` set (urls a)" "filepath \<notin> fst ` set (files a)"
    by blast
  then have "displayDataTransform Buffer event a = (Inr event', a')
         \<and> get (lodash_get event' dataPath) property = JStr route
         \<and> route \<noteq> r \<and> route \<notin> fst ` set (urls a)
         \<and> filepath \<notin> fst ` set (files a)
         \<and> map_of (urls a') route = Some filepath
         \<and> map_of (files a') filepath = Some (if property = ''image/png'' then JBuffer b else JStr r)"
    using assms(3,5) by (auto simp: served_def)
  then show ?thesis by blast
qed

theorem route_rewritten_again_witness:
  "lodash_get (display_data [(''text/html'', JStr ''/t.html'')]) typePath = JStr ''display_data''
   \<and> get (lodash_get (display_data [(''text/html'', JStr ''/t.html'')]) dataPath) ''text/html'' = JStr ''/t.html''
   \<and> ''/t.html'' \<in> fst ` set (urls \<lparr>files = [(''/tmp/t.html'', JStr ''<b>hi</b>'')], urls = [(''/t.html'', ''/tmp/t.html'')]\<rparr>)
   \<and> (\<exists>event' a' route filepath.
        displayDataTransform base64Buffer (display_data [(''text/html'', JStr ''/t.html'')])
          \<lparr>files = [(''/tmp/t.html'', JStr ''<b>hi</b>'')], urls = [(''/t.html'', ''/tmp/t.html'')]\<rparr>
          = (Inr event', a')
      \<and> get (lodash_get event' dataPath) ''text/html'' = JStr route
      \<and> route \<noteq> ''/t.html''
      \<and> route \<notin> fst ` set (urls \<lparr>files = [(''/tmp/t.html'', JStr ''<b>hi</b>'')], urls = [(''/t.html'', ''/tmp/t.html'')]\<rparr>)
      \<and> filepath \<notin> fst ` set (files \<lparr>files = [(''/tmp/t.html'', JStr ''<b>hi</b>'')], urls = [(''/t.html'', ''/tmp/t.html'')]\<rparr>)
      \<and> map_of (urls a') route = Some filepath
      \<and> map_of (files a') filepath = Some (JStr ''/t.html''))"
proof -
  let ?event = "display_data [(''text/html'', JStr ''/t.html'')]"
  let ?a = "\<lparr>files = [(''/tmp/t.html'', JStr ''<b>hi</b>'')], urls = [(''/t.html'', ''/tmp/t.html'')]\<rparr>"
  have h1: "lodash_get ?event typePath = JStr ''display_data''"
    by (simp add: display_data_def lodash_get_def typePath_def own_prop_def)
  have h2: "''text/html'' \<in> {''text/html'', ''image/png'', ''image/svg''}"
    by simp
  have h3: "get (lodash_get ?event dataPath) ''text/html'' = JStr ''/t.html''"
    by (simp add: display_data_def lodash_get_def dataPath_def own_prop_def)
  have h4: "''/t.html'' \<noteq> []"
    by simp
  have h5: "''/t.html'' \<in> fst ` set (urls ?a)"
    by simp
  have h6: "truthy (get (lodash_get ?event dataPath) ''image/png'') \<longrightarrow>
            base64Buffer (get (lodash_get ?event dataPath) ''image/png'') ''base64'' = Inr []"
    by (simp add: display_data_def lodash_get_def dataPath_def own_prop_def)
  from route_rewritten_again [where Buffer = base64Buffer, OF h1 h2 h3 h4 h5 h6]
  have "\<exists>event' a' route filepath.
          displayDataTransform base64Buffer ?event ?a = (Inr event', a')
        \<and> get (lodash_get event' dataPath) ''text/html'' = JStr route
        \<and> route \<noteq> ''/t.html''
        \<and> route \<notin> fst ` set (urls ?a)
        \<and> filepath \<notin> fst ` set (files ?a)
        \<and> map_of (urls a') route = Some filepath
        \<and> map_of (files a') filepath = Some (JStr ''/t.html'')"
    by simp
  with h1 h3 h5 show ?thesis
    by (intro conjI)
qed

text \<open>
  Claim C8. A display-data event (as \<open>_.get\<close> reads it) whose \<open>image/png\<close> field is a
  non-empty text \<open>s\<close> that is the base64 encoding of the bytes \<open>b\<close>, on a runtime whose
  \<open>new Buffer(s, 'base64')\<close> gives these bytes: the transform returns the event with a
  route key in that field; the route key is new, it leads to a new file, and the file
  holds exactly the bytes \<open>b\<close>.
\<close>

theorem png_decoded_and_served:
  assumes "lodash_get event typePath = JStr ''display_data''"
      and "get (lodash_get event dataPath) ''image/png'' = JStr s" and "s \<noteq> []"
      and "base64 s = Some b"
      and "Buffer (JStr s) ''base64'' = Inr b"
  shows "\<exists>event' a' route filepath.
           displayDataTransform Buffer event a = (Inr event', a')
         \<and> get (lodash_get event' dataPath) ''image/png'' = JStr route
         \<and> map_of (urls a') route = Some filepath
         \<and> map_of (files a') filepath = Some (JBuffer b)
         \<and> route \<notin> fst ` set (urls a) \<and> filepath \<notin> fst ` set (files a)"
proof -
  have "truthy (get (lodash_get event dataPath) ''image/png'')"
    using assms(2,3) by simp
  from transform_rewrites [OF assms(1) _ this, of Buffer b a] assms(2,5)
  show ?thesis
    by (simp add: served_def)
qed

theorem png_decoded_and_served_witness:
  "lodash_get (display_data [(''image/png'', JStr ''iVBORw=='')]) typePath = JStr ''display_data''
   \<and> get (lodash_get (display_data [(''image/png'', JStr ''iVBORw=='')]) dataPath) ''image/png'' = JStr ''iVBORw==''
   \<and> base64 ''iVBORw=='' = Some [0x89, 0x50, 0x4E, 0x47]
   \<and> base64Buffer (JStr ''iVBORw=='') ''base64'' = Inr [0x89, 0x50, 0x4E, 0x47]
   \<and> (\<exists>event' a' route filepath.
        displayDataTransform base64Buffer (display_data [(''image/png'', JStr ''iVBORw=='')]) no_artifacts
          = (Inr event', a')
      \<and> get (lodash_get event' dataPath) ''image/png'' = JStr route
      \<and> map_of (urls a') route = Some filepath
      \<and> map_of (files a') filepath = Some (JBuffer [0x89, 0x50, 0x4E, 0x47])
      \<and> route \<notin> fst ` set (urls no_artifacts) \<and> filepath \<notin> fst ` set (files no_artifacts))"
proof -
  let ?event = "display_data [(''image/png'', JStr ''iVBORw=='')]"
  have h1: "lodash_get ?event typePath = JStr ''display_data''"
    by (simp add: display_data_def lodash_get_def typePath_def own_prop_def)
  have h2: "get (lodash_get ?event dataPath) ''image/png'' = JStr ''iVBORw==''"
    by (simp add: display_data_def lodash_get_def dataPath_def own_prop_def)
  have h3: "''iVBORw=='' \<noteq> []"
    by simp
  have h4: "base64 ''iVBORw=='' = Some [0x89, 0x50, 0x4E, 0x47]"
    by (rule base64_png)
  have h5: "base64Buffer (JStr ''iVBORw=='') ''base64'' = Inr [0x89, 0x50, 0x4E, 0x47]"
    by (simp add: base64_png del: base64.simps)
  from png_decoded_and_served [where Buffer = base64Buffer, OF h1 h2 h3 h4 h5] h1 h2 h4 h5 show ?thesis
    by (intro conjI)
qed

text \<open>
  Claim C7. An event that is not a display-data event, or whose \<open>content.data\<close> is not an
  object, both as \<open>_.get\<close> reads them, comes back as it went in, and no file or route is
  made. And when the transform returns, a field that the data of the event did not have
  is not there afterwards either, whichever field it is.
\<close>

theorem other_events_unchanged:
  "(lodash_get event typePath \<noteq> JStr ''display_data''
      \<or> \<not> isPlainObject (lodash_get event dataPath)
     \<longrightarrow> displayDataTransform Buffer event a = (Inr event, a))
   \<and> (displayDataTransform Buffer event a = (Inr event', a')
      \<and> get (lodash_get event dataPath) property = JUndefined
     \<longrightarrow> get (lodash_get event' dataPath) property = JUndefined)"
  using transform_keeps_undefined [of Buffer event a event' a' property]
    transform_nothing_to_do [of event Buffer a]
  by (auto simp: not_object_no_fields)

theorem other_events_unchanged_witness:
  "lodash_get (JObj [(''result'', JObj [(''msg_type'', JStr ''stream''), (''content'', JObj [(''data'', JObj [(''text/html'', JStr ''x'')])])])])
       typePath \<noteq> JStr ''display_data''
   \<and> displayDataTransform base64Buffer
        (JObj [(''result'', JObj [(''msg_type'', JStr ''stream''), (''content'', JObj [(''data'', JObj [(''text/html'', JStr ''x'')])])])])
        no_artifacts
       = (Inr (JObj [(''result'', JObj [(''msg_type'', JStr ''stream''), (''content'', JObj [(''data'', JObj [(''text/html'', JStr ''x'')])])])]),
          no_artifacts)
   \<and> displayDataTransform base64Buffer (display_data [(''text/html'', JStr ''<b>hi</b>'')]) no_artifacts
       = (Inr (display_data [(''text/html'', JStr ''/t.html'')]),
          \<lparr>files = [(''/tmp/t.html'', JStr ''<b>hi</b>'')], urls = [(''/t.html'', ''/tmp/t.html'')]\<rparr>)
   \<and> get (lodash_get (display_data [(''text/html'', JStr ''<b>hi</b>'')]) dataPath) ''image/png'' = JUndefined
   \<and> get (lodash_get (display_data [(''text/html'', JStr ''/t.html'')]) dataPath) ''image/png'' = JUndefined"
proof -
  let ?stream = "JObj [(''result'', JObj [(''msg_type'', JStr ''stream''), (''content'', JObj [(''data'', JObj [(''text/html'', JStr ''x'')])])])]"
  have h1: "lodash_get ?stream typePath \<noteq> JStr ''display_data''"
    by (simp add: lodash_get_def typePath_def own_prop_def)
  have h2: "get (lodash_get (display_data [(''text/html'', JStr ''<b>hi</b>'')]) dataPath) ''image/png'' = JUndefined"
    by (simp add: display_data_def lodash_get_def dataPath_def own_prop_def)
  from other_events_unchanged [of ?stream base64Buffer no_artifacts] h1
  have c1: "displayDataTransform base64Buffer ?stream no_artifacts = (Inr ?stream, no_artifacts)"
    by blast
  from other_events_unchanged
    [of "display_data [(''text/html'', JStr ''<b>hi</b>'')]" base64Buffer no_artifacts
        "display_data [(''text/html'', JStr ''/t.html'')]" _ "''image/png''"]
    html_first_pass h2
  have c2: "get (lodash_get (display_data [(''text/html'', JStr ''/t.html'')]) dataPath) ''image/png'' = JUndefined"
    by blast
  from h1 c1 html_first_pass h2 c2 show ?thesis
    by (intro conjI)
qed

end
